theory Spec2Isabelle
  imports Complex_Main
begin

section \<open>Errors and arrays\<close>

text \<open>
  The exceptions that the modelled functions of \<^verbatim>\<open>librosa/segment.py\<close> can raise.
  \<open>ParameterError\<close> is librosa's own; the others are raised by Python, numpy or scipy
  underneath the code of the module.
\<close>

datatype error = ParameterError | IndexError | TypeError | ValueError
  | ZeroDivisionError | NotImplementedError | AxisError

text \<open>
  A numpy array is its shape and its buffer in row-major order. Floating-point entries are
  idealised as real numbers.
\<close>

datatype 'a ndarray = NDArray (shape: "nat list") (flat: "'a list")

definition ndim :: "'a ndarray \<Rightarrow> nat" where
  "ndim a = length (shape a)"

definition nrows :: "'a ndarray \<Rightarrow> nat" where
  "nrows a = shape a ! 0"

definition ncols :: "'a ndarray \<Rightarrow> nat" where
  "ncols a = shape a ! 1"

text \<open>\<open>a[i, j]\<close> of a two-dimensional array, for \<open>i\<close> and \<open>j\<close> in range.\<close>

definition get2 :: "'a ndarray \<Rightarrow> nat \<Rightarrow> nat \<Rightarrow> 'a" where
  "get2 a i j = flat a ! (i * ncols a + j)"

text \<open>The \<open>r \<times> c\<close> array whose entry \<open>[i, j]\<close> is \<open>f i j\<close>.\<close>

definition mk2d :: "nat \<Rightarrow> nat \<Rightarrow> (nat \<Rightarrow> nat \<Rightarrow> 'a) \<Rightarrow> 'a ndarray" where
  "mk2d r c f = NDArray [r, c] (map (\<lambda>k. f (k div c) (k mod c)) [0..<r * c])"

text \<open>A well-formed two-dimensional array of shape \<open>(r, c)\<close>.\<close>

definition is2d :: "nat \<Rightarrow> nat \<Rightarrow> 'a ndarray \<Rightarrow> bool" where
  "is2d r c a \<longleftrightarrow> shape a = [r, c] \<and> length (flat a) = r * c"

section \<open>Time-lag transforms\<close>

text \<open>
  The storage formats of \<^verbatim>\<open>scipy.sparse\<close>. A matrix argument is a numpy array or a scipy
  sparse matrix; a sparse matrix is its format together with the two-dimensional array of
  its entries (its \<^verbatim>\<open>toarray()\<close>).
\<close>

datatype sparse_format = BSR | COO | CSC | CSR | DIA | DOK | LIL

datatype 'a matrix = Dense "'a ndarray" | Sparse sparse_format "'a ndarray"

fun toarray :: "'a matrix \<Rightarrow> 'a ndarray" where
  "toarray (Dense a) = a"
| "toarray (Sparse f a) = a"

text \<open>The result in the container of the input: \<^verbatim>\<open>asformat(fmt)\<close> for a sparse input.\<close>

fun as_input :: "'a matrix \<Rightarrow> 'b ndarray \<Rightarrow> 'b matrix" where
  "as_input (Dense _) b = Dense b"
| "as_input (Sparse f _) b = Sparse f b"

text \<open>
  Indexing a Python tuple: \<open>s[i]\<close> counts a negative \<open>i\<close> from the end and raises
  IndexError out of range.
\<close>

definition tuple_index :: "'a list \<Rightarrow> int \<Rightarrow> error + 'a" where
  "tuple_index s i =
     (if - int (length s) \<le> i \<and> i < int (length s)
      then Inr (s ! nat (if i < 0 then int (length s) + i else i))
      else Inl IndexError)"

text \<open>
  \<^verbatim>\<open>np.pad(a, padding, mode='constant')\<close> where \<open>padding\<close> is \<open>(0, t)\<close> on axis \<open>ax\<close> and
  \<open>(0, 0)\<close> on the other axis: \<open>t\<close> zeros are appended along \<open>ax\<close>.
\<close>

definition np_pad :: "nat \<Rightarrow> nat \<Rightarrow> 'a::zero ndarray \<Rightarrow> 'a ndarray" where
  "np_pad ax t a =
     (if ax = 0
      then mk2d (nrows a + t) (ncols a) (\<lambda>i j. if i < nrows a then get2 a i j else 0)
      else mk2d (nrows a) (ncols a + t) (\<lambda>i j. if j < ncols a then get2 a i j else 0))"

text \<open>
  \<^verbatim>\<open>scipy.sparse.kron(np.asarray([[1, 0]]).swapaxes(axis, 0), a)\<close>: for \<open>axis = 0\<close> the
  block row \<open>[a, 0]\<close>, for \<open>axis = 1\<close> the block column of \<open>a\<close> over \<open>0\<close>.
\<close>

definition kron_pad :: "nat \<Rightarrow> 'a::zero ndarray \<Rightarrow> 'a ndarray" where
  "kron_pad axis a =
     (if axis = 0
      then mk2d (nrows a) (2 * ncols a) (\<lambda>i j. if j < ncols a then get2 a i j else 0)
      else mk2d (2 * nrows a) (ncols a) (\<lambda>i j. if i < nrows a then get2 a i j else 0))"

text \<open>
  The slice selected by \<^verbatim>\<open>idx_slice[axis] = i\<close>: row \<open>i\<close> for \<open>axis = 0\<close>, column \<open>i\<close>
  for \<open>axis = 1\<close>; reading it and assigning to it.
\<close>

definition get_slice :: "nat \<Rightarrow> nat \<Rightarrow> 'a ndarray \<Rightarrow> 'a list" where
  "get_slice axis i a =
     (if axis = 0 then map (\<lambda>j. get2 a i j) [0..<ncols a]
      else map (\<lambda>j. get2 a j i) [0..<nrows a])"

definition set_slice :: "nat \<Rightarrow> nat \<Rightarrow> 'a list \<Rightarrow> 'a ndarray \<Rightarrow> 'a ndarray" where
  "set_slice axis i v a =
     mk2d (nrows a) (ncols a)
       (\<lambda>r c. if axis = 0 then (if r = i then v ! c else get2 a r c)
              else (if c = i then v ! r else get2 a r c))"

text \<open>
  Modelled from the spec: \<^verbatim>\<open>librosa.util.roll_sparse\<close> is not part of the module. The
  specification has the slice "cyclically rotated" by the shift along the lag axis, with
  \<open>lag[i, j] = rec[i + j, j]\<close> for the shift \<open>-j\<close>, as \<^verbatim>\<open>np.roll\<close> does: the entry at
  position \<open>k\<close> moves to position \<open>(k + shift) mod n\<close>.
\<close>

definition roll_sparse :: "'a list \<Rightarrow> int \<Rightarrow> 'a list" where
  "roll_sparse x shift =
     map (\<lambda>k. x ! nat ((int k - shift) mod int (length x))) [0..<length x]"

text \<open>The slice \<^verbatim>\<open>a[:t, :]\<close> for \<open>ax = 0\<close> and \<^verbatim>\<open>a[:, :t]\<close> for \<open>ax = 1\<close>.\<close>

definition take_axis :: "nat \<Rightarrow> nat \<Rightarrow> 'a ndarray \<Rightarrow> 'a ndarray" where
  "take_axis ax t a =
     (if ax = 0 then mk2d (min t (nrows a)) (ncols a) (get2 a)
      else mk2d (nrows a) (min t (ncols a)) (get2 a))"

text \<open>
  \<^verbatim>\<open>recurrence_to_lag(rec, pad, axis)\<close>. The axis is not validated: after \<open>np.abs\<close> it
  indexes the shape tuple. The loop reads and writes \<open>lag\<close>, which for a sparse input is a
  LIL matrix.
\<close>

definition recurrence_to_lag :: "'a::zero matrix \<Rightarrow> bool \<Rightarrow> int \<Rightarrow> error + 'a matrix" where
  "recurrence_to_lag rec pad axis =
     (let axis = \<bar>axis\<bar>; a = toarray rec
      in if ndim a \<noteq> 2 \<or> shape a ! 0 \<noteq> shape a ! 1 then Inl ParameterError
         else
           (case tuple_index (shape a) axis of
              Inl e \<Rightarrow> Inl e
            | Inr t \<Rightarrow>
                let ax = nat axis;
                    lag = (if pad
                           then (case rec of Sparse _ _ \<Rightarrow> kron_pad ax a
                                 | Dense _ \<Rightarrow> np_pad (1 - ax) t a)
                           else a);
                    lag = fold (\<lambda>i lag.
                                  set_slice ax i (roll_sparse (get_slice ax i lag) (- int i)) lag)
                            [1..<t] lag
                in Inr (as_input rec lag)))"

text \<open>
  Reading a slice of a matrix, \<^verbatim>\<open>lag[tuple(idx_slice)]\<close>. The COO and DIA formats of scipy
  do not support indexing (TypeError, the object is not subscriptable) and the BSR format
  raises NotImplementedError.
\<close>

fun getitem_slice :: "'a matrix \<Rightarrow> nat \<Rightarrow> nat \<Rightarrow> error + 'a list" where
  "getitem_slice (Dense a) axis i = Inr (get_slice axis i a)"
| "getitem_slice (Sparse f a) axis i =
     (case f of
        COO \<Rightarrow> Inl TypeError
      | DIA \<Rightarrow> Inl TypeError
      | BSR \<Rightarrow> Inl NotImplementedError
      | _ \<Rightarrow> Inr (get_slice axis i a))"

text \<open>The matrices whose slices can be read: arrays, and sparse matrices in a format with indexing.\<close>

fun subscriptable :: "'a matrix \<Rightarrow> bool" where
  "subscriptable (Dense a) = True"
| "subscriptable (Sparse f a) = (f \<noteq> BSR \<and> f \<noteq> COO \<and> f \<noteq> DIA)"

text \<open>
  The loop of \<^verbatim>\<open>lag_to_recurrence\<close> (lines 467 to 469): it reads the slices of the
  argument \<open>lag\<close> in the format it came in, and writes them into the copy \<open>rec\<close>.
\<close>

fun lag_to_recurrence_loop ::
  "'a matrix \<Rightarrow> nat \<Rightarrow> nat list \<Rightarrow> 'a ndarray \<Rightarrow> error + 'a ndarray" where
  "lag_to_recurrence_loop lag axis [] rec = Inr rec"
| "lag_to_recurrence_loop lag axis (i # is) rec =
     (case getitem_slice lag axis i of
        Inl e \<Rightarrow> Inl e
      | Inr x \<Rightarrow> lag_to_recurrence_loop lag axis is (set_slice axis i (roll_sparse x (int i)) rec))"

definition lag_to_recurrence :: "'a matrix \<Rightarrow> int \<Rightarrow> error + 'a matrix" where
  "lag_to_recurrence lag axis =
     (if axis \<notin> set [0, 1, - 1] then Inl ParameterError
      else
        let axis = nat \<bar>axis\<bar>; a = toarray lag
        in if ndim a \<noteq> 2 \<or>
              (shape a ! 0 \<noteq> shape a ! 1 \<and> shape a ! (1 - axis) \<noteq> 2 * shape a ! axis)
           then Inl ParameterError
           else
             let t = shape a ! axis
             in (case lag_to_recurrence_loop lag axis [1..<t] a of
                   Inl e \<Rightarrow> Inl e
                 | Inr rec \<Rightarrow> Inr (as_input lag (take_axis (1 - axis) t rec))))"

section \<open>Recurrence matrices\<close>

text \<open>
  A floating-point entry of the returned matrix: a number, or NaN. NaN arises only from the
  median of no data (\<^verbatim>\<open>np.nanmedian\<close> of an empty array) and from arithmetic on it.
  Booleans are written \<open>1\<close> and \<open>0\<close>.
\<close>

datatype float64 = Finite real | NaN

text \<open>\<^verbatim>\<open>rec.setdiag(v, k)\<close>: the entries \<open>[i, i + k]\<close> are set to \<open>v\<close>.\<close>

definition setdiag :: "real \<Rightarrow> int \<Rightarrow> real ndarray \<Rightarrow> real ndarray" where
  "setdiag v k a = mk2d (nrows a) (ncols a) (\<lambda>i j. if int j - int i = k then v else get2 a i j)"

text \<open>The Python slice \<open>xs[k:]\<close>; a negative \<open>k\<close> counts from the end.\<close>

definition slice_from :: "int \<Rightarrow> 'a list \<Rightarrow> 'a list" where
  "slice_from k xs = (if 0 \<le> k then drop (nat k) xs else drop (nat (int (length xs) + k)) xs)"

text \<open>
  One pass of the loop that retains the top \<open>k\<close> links of point \<open>i\<close> (lines 244 to 252):
  \<open>links\<close> are the columns of the nonzero entries of row \<open>i\<close>, \<open>idx\<close> orders them by
  ascending value and everything past the \<open>k\<close>-th is set to zero. \<^verbatim>\<open>np.argsort\<close> is a
  parameter, since numpy leaves the order of equal values open.
\<close>

definition prune_row ::
  "(real list \<Rightarrow> nat list) \<Rightarrow> int \<Rightarrow> nat \<Rightarrow> real ndarray \<Rightarrow> real ndarray" where
  "prune_row argsort k i a =
     (let links = filter (\<lambda>j. get2 a i j \<noteq> 0) [0..<ncols a];
          idx = map (\<lambda>p. links ! p) (argsort (map (\<lambda>j. get2 a i j) links));
          squashed = slice_from k idx
      in mk2d (nrows a) (ncols a) (\<lambda>r c. if r = i \<and> c \<in> set squashed then 0 else get2 a r c))"

text \<open>\<^verbatim>\<open>rec.T\<close> and \<^verbatim>\<open>rec.minimum(other)\<close> for matrices of one shape.\<close>

definition transpose_array :: "'a ndarray \<Rightarrow> 'a ndarray" where
  "transpose_array a = mk2d (ncols a) (nrows a) (\<lambda>i j. get2 a j i)"

definition minimum :: "real ndarray \<Rightarrow> real ndarray \<Rightarrow> real ndarray" where
  "minimum a b = mk2d (nrows a) (ncols a) (\<lambda>i j. min (get2 a i j) (get2 b i j))"

text \<open>An elementwise map, such as \<^verbatim>\<open>astype\<close>.\<close>

definition map_array :: "('a \<Rightarrow> 'b) \<Rightarrow> 'a ndarray \<Rightarrow> 'b ndarray" where
  "map_array f a = NDArray (shape a) (map f (flat a))"

text \<open>
  \<^verbatim>\<open>np.nanmedian\<close> of a list of numbers: NaN for no data, else the middle of the sorted
  data, or the mean of the two middle values.
\<close>

definition nanmedian :: "real list \<Rightarrow> float64" where
  "nanmedian xs =
     (if xs = [] then NaN
      else
        let s = sort xs; n = length s
        in if odd n then Finite (s ! (n div 2))
           else Finite ((s ! (n div 2 - 1) + s ! (n div 2)) / 2))"

text \<open>
  \<^verbatim>\<open>rec.max(axis=1).data\<close>: the maxima of the rows, those equal to zero left out (scipy
  stores the nonzero maxima only; a row that is not full counts its implicit zeros).
\<close>

definition row_max_data :: "real ndarray \<Rightarrow> real list" where
  "row_max_data a =
     filter (\<lambda>x. x \<noteq> 0) (map (\<lambda>i. Max (set (map (\<lambda>j. get2 a i j) [0..<ncols a]))) [0..<nrows a])"

text \<open>
  \<^verbatim>\<open>np.exp(d / (-1 * bandwidth))\<close> for a distance \<open>d \<ge> 0\<close>. A NaN bandwidth gives NaN; a
  zero bandwidth gives \<open>exp(-inf) = 0\<close>, or NaN for \<open>d = 0\<close>.
\<close>

fun affinity_value :: "float64 \<Rightarrow> real \<Rightarrow> float64" where
  "affinity_value NaN d = NaN"
| "affinity_value (Finite b) d =
     (if b = 0 then (if d = 0 then NaN else Finite 0) else Finite (exp (d / (- 1 * b))))"

text \<open>
  The affinity mode (lines 276 to 283) on the stored entries, which after
  \<^verbatim>\<open>eliminate_zeros\<close> are the nonzero ones: the bandwidth defaults to the median of the
  row maxima, negative placeholders go back to zero, and the entries are mapped through
  the exponential.
\<close>

definition affinity :: "real option \<Rightarrow> real ndarray \<Rightarrow> float64 ndarray" where
  "affinity bandwidth a =
     (let bw = (case bandwidth of None \<Rightarrow> nanmedian (row_max_data a) | Some b \<Rightarrow> Finite b)
      in map_array (\<lambda>v. if v = 0 then Finite 0
                         else affinity_value bw (if v < 0 then 0 else v)) a)"

text \<open>
  \<^verbatim>\<open>np.ceil(np.sqrt(m))\<close> for a natural number \<open>m\<close>, computed as the least \<open>n\<close> with
  \<open>m \<le> n\<^sup>2\<close>, searching upwards from \<open>n\<close>.
\<close>

function ceil_sqrt_from :: "nat \<Rightarrow> nat \<Rightarrow> nat" where
  "ceil_sqrt_from m n = (if n * n < m then ceil_sqrt_from m (Suc n) else n)"
  by pat_completeness auto
termination
proof (relation "measure (\<lambda>(m, n). m - n)")
  show "wf (measure (\<lambda>(m, n). m - n))" by simp
next
  fix m n :: nat
  assume h: "n * n < m"
  have "n \<le> n * n" by (cases n) simp_all
  then have "n < m" using h by (rule le_less_trans)
  then show "((m, Suc n), (m, n)) \<in> measure (\<lambda>(m, n). m - n)" by simp
qed

definition ceil_sqrt :: "int \<Rightarrow> int" where
  "ceil_sqrt m = int (ceil_sqrt_from (nat m) 0)"

text \<open>
  The number of neighbours \<open>k\<close> (lines 206 to 210 and 217): the default is
  \<open>2 * ceil(sqrt(t - 2 * width + 1))\<close>, or \<open>2\<close> for short data.
\<close>

definition recurrence_k :: "nat \<Rightarrow> int \<Rightarrow> int option \<Rightarrow> int" where
  "recurrence_k t width k =
     (case k of
        None \<Rightarrow> (if int t > 2 * width + 1 then 2 * ceil_sqrt (int t - 2 * width + 1) else 2)
      | Some k \<Rightarrow> k)"

text \<open>
  The links of the graph (lines 219 to 252). The external nearest-neighbour search is a
  parameter: \<open>kneighbors_graph n_neighbors mode\<close> is the graph that
  \<^verbatim>\<open>sklearn.neighbors.NearestNeighbors\<close> fitted to the data returns, a \<open>t \<times> t\<close> matrix.
  The connections within \<open>width\<close> are removed (the diagonals set to zero have offsets
  below \<open>width \<le> t\<close>, which scipy accepts), then each row keeps its top \<open>k\<close> links.
\<close>

definition recurrence_links ::
  "(int \<Rightarrow> string \<Rightarrow> real ndarray) \<Rightarrow> (real list \<Rightarrow> nat list) \<Rightarrow> nat \<Rightarrow> int \<Rightarrow> int \<Rightarrow>
   string \<Rightarrow> real ndarray" where
  "recurrence_links kneighbors_graph argsort t k width mode =
     (let kng_mode = (if mode = ''affinity'' then ''distance'' else mode);
          rec = kneighbors_graph (min (int t - 1) (k + 2 * width)) kng_mode;
          rec = fold (\<lambda>diag rec. setdiag 0 diag rec) [- width + 1..width - 1] rec
      in fold (\<lambda>i rec. prune_row argsort k i rec) [0..<t] rec)"

text \<open>
  The self-loops and the symmetrisation (lines 254 to 272): with \<open>self\<close> the diagonal is
  set to \<open>1\<close> in connectivity mode and to the placeholder \<open>-1\<close> in affinity mode; with
  \<open>sym\<close> (here \<open>sym'\<close>) the matrix becomes its minimum with its transpose.
\<close>

definition recurrence_loops :: "real ndarray \<Rightarrow> bool \<Rightarrow> string \<Rightarrow> bool \<Rightarrow> real ndarray" where
  "recurrence_loops rec sym' mode self =
     (let rec = (if self
                 then (if mode = ''connectivity'' then setdiag 1 0 rec
                       else if mode = ''affinity'' then setdiag (- 1) 0 rec
                       else rec)
                 else rec)
      in if sym' then minimum rec (transpose_array rec) else rec)"

text \<open>The values of the mode and the container of the result (lines 274 to 288).\<close>

definition recurrence_values ::
  "real ndarray \<Rightarrow> bool \<Rightarrow> string \<Rightarrow> real option \<Rightarrow> float64 matrix" where
  "recurrence_values rec sparse mode bandwidth =
     (let out = (if mode = ''connectivity''
                 then map_array (\<lambda>v. Finite (if v \<noteq> 0 then 1 else 0)) rec
                 else if mode = ''affinity'' then affinity bandwidth rec
                 else map_array Finite rec)
      in if sparse then Sparse CSR out else Dense out)"

text \<open>
  The number of observations \<open>t\<close> (lines 192 to 197), from the shape of the data:
  \<^verbatim>\<open>np.atleast_2d\<close> gives a scalar the shape \<open>(1, 1)\<close> and a vector of length \<open>n\<close> the
  shape \<open>(1, n)\<close>; \<^verbatim>\<open>np.swapaxes(data, axis, 0)\<close> raises numpy's AxisError for an axis
  out of range; and \<^verbatim>\<open>data.reshape((t, -1))\<close> raises ValueError for \<open>t = 0\<close>, where numpy
  cannot infer the other dimension.
\<close>

definition atleast_2d :: "nat list \<Rightarrow> nat list" where
  "atleast_2d s = (case s of [] \<Rightarrow> [1, 1] | [n] \<Rightarrow> [1, n] | _ \<Rightarrow> s)"

definition data_length :: "nat list \<Rightarrow> int \<Rightarrow> error + nat" where
  "data_length data_shape axis =
     (let s = atleast_2d data_shape; d = int (length s)
      in if axis < - d \<or> d \<le> axis then Inl AxisError
         else
           let t = s ! nat (if axis < 0 then axis + d else axis)
           in if t = 0 then Inl ValueError else Inr t)"

text \<open>
  \<^verbatim>\<open>recurrence_matrix\<close>. The data enters by its shape, since its values are seen by
  the nearest-neighbour search only.
\<close>

definition recurrence_matrix ::
  "(int \<Rightarrow> string \<Rightarrow> real ndarray) \<Rightarrow> (real list \<Rightarrow> nat list) \<Rightarrow> nat list \<Rightarrow> int option \<Rightarrow>
   int \<Rightarrow> bool \<Rightarrow> bool \<Rightarrow> string \<Rightarrow> real option \<Rightarrow> bool \<Rightarrow> int \<Rightarrow> error + float64 matrix" where
  "recurrence_matrix kneighbors_graph argsort data_shape k width sym' sparse mode bandwidth self
     axis =
     (case data_length data_shape axis of
        Inl e \<Rightarrow> Inl e
      | Inr t \<Rightarrow>
          if width < 1 \<or> width > int t then Inl ParameterError
          else if mode \<notin> set [''connectivity'', ''distance'', ''affinity'']
          then Inl ParameterError
          else
            let k = recurrence_k t width k
            in if (case bandwidth of None \<Rightarrow> False | Some b \<Rightarrow> b \<le> 0)
               then Inl ParameterError
               else
                 let rec = recurrence_links kneighbors_graph argsort t k width mode;
                     rec = recurrence_loops rec sym' mode self
                 in Inr (recurrence_values rec sparse mode bandwidth))"

section \<open>Path enhancement\<close>

text \<open>
  The slope ratios are float64 numbers. A float64 number is modelled by the real number it
  denotes, and the floating-point arithmetic is a parameter of the model:
  \<open>fl_round x\<close> is the float64 that the exact result \<open>x\<close> of an addition, subtraction,
  multiplication or division is rounded to (these four operations are correctly rounded in
  IEEE 754), \<open>np_log2\<close> is \<^verbatim>\<open>np.log2\<close> and \<open>np_power b y\<close> is \<^verbatim>\<open>np.power(b, y)\<close>,
  which numpy takes from the C library. The infinities and NaN are not modelled: the
  documented ratios are positive, and numpy's \<open>log2\<close> of such a number is finite.
\<close>

record float_ops =
  fl_round :: "real \<Rightarrow> real"
  np_log2 :: "real \<Rightarrow> real"
  np_power :: "real \<Rightarrow> real \<Rightarrow> real"

text \<open>
  \<^verbatim>\<open>np.linspace(start, stop, num)\<close> with the default \<open>endpoint=True\<close>, as numpy computes
  it: a negative \<open>num\<close> raises ValueError; the samples are \<open>arange(0, num) * step + start\<close>
  with \<open>step = (stop - start) / (num - 1)\<close>, every operation rounded; when the step rounds
  to zero the order of the operations is \<open>arange(0, num) / (num - 1) * (stop - start)\<close>; a
  single sample is \<open>0 * (stop - start) + start\<close>; and the last of two or more samples is
  set to \<open>stop\<close> itself.
\<close>

definition linspace :: "float_ops \<Rightarrow> real \<Rightarrow> real \<Rightarrow> int \<Rightarrow> error + real list" where
  "linspace fl start stop num =
     (if num < 0 then Inl ValueError
      else
        let n = nat num;
            divisor = real n - 1;
            delta = fl_round fl (stop - start);
            step = fl_round fl (delta / divisor);
            y = (if 1 < n then
                   (if step = 0
                    then map (\<lambda>i. fl_round fl (fl_round fl (real i / divisor) * delta)) [0..<n]
                    else map (\<lambda>i. fl_round fl (real i * step)) [0..<n])
                 else map (\<lambda>i. fl_round fl (real i * delta)) [0..<n]);
            y = map (\<lambda>v. fl_round fl (v + start)) y
        in Inr (if 1 < n then y[n - 1 := stop] else y))"

text \<open>\<^verbatim>\<open>np.logspace(start, stop, num=num, base=base)\<close>: \<open>np.power(base, linspace(start, stop, num))\<close>.\<close>

definition logspace :: "float_ops \<Rightarrow> real \<Rightarrow> real \<Rightarrow> int \<Rightarrow> real \<Rightarrow> error + real list" where
  "logspace fl start stop num base =
     (case linspace fl start stop num of
        Inl e \<Rightarrow> Inl e
      | Inr ys \<Rightarrow> Inr (map (np_power fl base) ys))"

text \<open>
  Lines 864 to 867 of \<^verbatim>\<open>path_enhance\<close>: the default of \<open>min_ratio\<close> and its check.
  \<open>1./max_ratio\<close> is a floating-point division, and raises ZeroDivisionError for a Python
  float \<open>max_ratio\<close> of zero.
\<close>

definition path_enhance_min_ratio :: "float_ops \<Rightarrow> real \<Rightarrow> real option \<Rightarrow> error + real" where
  "path_enhance_min_ratio fl max_ratio min_ratio =
     (case min_ratio of
        None \<Rightarrow> (if max_ratio = 0 then Inl ZeroDivisionError
                 else Inr (fl_round fl (1 / max_ratio)))
      | Some m \<Rightarrow> (if m > max_ratio then Inl ParameterError else Inr m))"

text \<open>
  The slope ratios that the loop of \<^verbatim>\<open>path_enhance\<close> runs over (line 870):
  \<^verbatim>\<open>np.logspace(np.log2(min_ratio), np.log2(max_ratio), num=n_filters, base=2)\<close>.
\<close>

definition path_enhance_ratios ::
  "float_ops \<Rightarrow> real \<Rightarrow> real option \<Rightarrow> int \<Rightarrow> error + real list" where
  "path_enhance_ratios fl max_ratio min_ratio n_filters =
     (case path_enhance_min_ratio fl max_ratio min_ratio of
        Inl e \<Rightarrow> Inl e
      | Inr mn \<Rightarrow> logspace fl (np_log2 fl mn) (np_log2 fl max_ratio) n_filters 2)"

text \<open>
  \<^verbatim>\<open>np.maximum(a, b, out=a)\<close>. \<^verbatim>\<open>scipy.ndimage.convolve\<close> returns an array of the
  shape of its input, so both operands have the shape of \<open>R\<close>; operands of different shapes
  (where numpy would try to broadcast into \<open>out\<close>) are reported as ValueError.
\<close>

definition np_maximum_out :: "real ndarray \<Rightarrow> real ndarray \<Rightarrow> error + real ndarray" where
  "np_maximum_out a b =
     (if shape b = shape a then Inr (NDArray (shape a) (map2 max (flat a) (flat b)))
      else Inl ValueError)"

text \<open>
  \<^verbatim>\<open>np.clip(R_smooth, 0, None, out=R_smooth)\<close>. When the accumulator is still \<open>None\<close>,
  numpy turns it into a zero-dimensional object array and compares \<open>None\<close> with \<open>0\<close>,
  which Python 3 refuses with TypeError.
\<close>

fun np_clip_out :: "real ndarray option \<Rightarrow> error + real ndarray option" where
  "np_clip_out None = Inl TypeError"
| "np_clip_out (Some a) = Inr (Some (NDArray (shape a) (map (max 0) (flat a))))"

text \<open>
  The body of the loop (lines 871 to 878). The external primitives are parameters.
  \<open>diagonal_filter window n ratio zero_mean\<close> is \<^verbatim>\<open>librosa.filters.diagonal_filter\<close>,
  which returns a kernel or raises: it validates \<open>window\<close>, and a window that it rejects
  (an array whose length is not \<open>n\<close>, a value that is no window specification) is a
  ParameterError. \<open>convolve R kern\<close> is \<^verbatim>\<open>scipy.ndimage.convolve(R, kernel, **kwargs)\<close>,
  which returns an array for the array \<open>R\<close> and a kernel of its dimension; scipy raises no
  ParameterError, which is librosa's.
\<close>

fun path_enhance_step ::
  "(real ndarray \<Rightarrow> real ndarray \<Rightarrow> real ndarray) \<Rightarrow> real ndarray \<Rightarrow> real ndarray \<Rightarrow>
   real ndarray option \<Rightarrow> error + real ndarray option" where
  "path_enhance_step convolve R kern None = Inr (Some (convolve R kern))"
| "path_enhance_step convolve R kern (Some R_smooth) =
     (case np_maximum_out R_smooth (convolve R kern) of
        Inl e \<Rightarrow> Inl e
      | Inr m \<Rightarrow> Inr (Some m))"

fun path_enhance_loop ::
  "(real ndarray \<Rightarrow> real ndarray \<Rightarrow> real ndarray) \<Rightarrow>
   ('w \<Rightarrow> int \<Rightarrow> real \<Rightarrow> bool \<Rightarrow> error + real ndarray) \<Rightarrow>
   real ndarray \<Rightarrow> int \<Rightarrow> 'w \<Rightarrow> bool \<Rightarrow> real list \<Rightarrow> real ndarray option \<Rightarrow>
   error + real ndarray option" where
  "path_enhance_loop convolve diagonal_filter R n window zero_mean [] R_smooth = Inr R_smooth"
| "path_enhance_loop convolve diagonal_filter R n window zero_mean (ratio # ratios) R_smooth =
     (case diagonal_filter window n ratio zero_mean of
        Inl e \<Rightarrow> Inl e
      | Inr kern \<Rightarrow>
          (case path_enhance_step convolve R kern R_smooth of
             Inl e \<Rightarrow> Inl e
           | Inr acc \<Rightarrow> path_enhance_loop convolve diagonal_filter R n window zero_mean ratios acc))"

definition path_enhance ::
  "float_ops \<Rightarrow> (real ndarray \<Rightarrow> real ndarray \<Rightarrow> real ndarray) \<Rightarrow>
   ('w \<Rightarrow> int \<Rightarrow> real \<Rightarrow> bool \<Rightarrow> error + real ndarray) \<Rightarrow>
   real ndarray \<Rightarrow> int \<Rightarrow> 'w \<Rightarrow> real \<Rightarrow> real option \<Rightarrow> int \<Rightarrow> bool \<Rightarrow> bool \<Rightarrow>
   error + real ndarray option" where
  "path_enhance fl convolve diagonal_filter R n window max_ratio min_ratio n_filters zero_mean clip =
     (case path_enhance_ratios fl max_ratio min_ratio n_filters of
        Inl e \<Rightarrow> Inl e
      | Inr ratios \<Rightarrow>
          (case path_enhance_loop convolve diagonal_filter R n window zero_mean ratios None of
             Inl e \<Rightarrow> Inl e
           | Inr R_smooth \<Rightarrow> if clip then np_clip_out R_smooth else Inr R_smooth))"

text \<open>
  An instance of the arithmetic on which the model can be run: the operations of the real
  numbers, without rounding.
\<close>

abbreviation real_arithmetic :: float_ops where
  "real_arithmetic \<equiv> \<lparr>fl_round = (\<lambda>x. x), np_log2 = log 2, np_power = (powr)\<rparr>"

section \<open>Properties of two-dimensional arrays\<close>

lemma shape_mk2d [simp]: "shape (mk2d r c f) = [r, c]"
  by (simp add: mk2d_def)

lemma nrows_mk2d [simp]: "nrows (mk2d r c f) = r"
  by (simp add: nrows_def)

lemma ncols_mk2d [simp]: "ncols (mk2d r c f) = c"
  by (simp add: ncols_def)

lemma ndim_mk2d [simp]: "ndim (mk2d r c f) = 2"
  by (simp add: ndim_def)

lemma is2d_mk2d [simp]: "is2d r c (mk2d r c f)"
  by (simp add: is2d_def mk2d_def)

lemma index_less: "i < r \<Longrightarrow> j < c \<Longrightarrow> i * c + j < r * (c::nat)"
proof -
  assume "i < r" "j < c"
  then have "i * c + j < i * c + c" by simp
  also have "\<dots> = Suc i * c" by simp
  also have "\<dots> \<le> r * c" using \<open>i < r\<close> by (intro mult_le_mono1) simp
  finally show ?thesis .
qed

lemma get2_mk2d [simp]: "i < r \<Longrightarrow> j < c \<Longrightarrow> get2 (mk2d r c f) i j = f i j"
  using index_less [of i r j c] by (simp add: get2_def mk2d_def ncols_def)

lemma mk2d_cong: "(\<And>i j. i < r \<Longrightarrow> j < c \<Longrightarrow> f i j = g i j) \<Longrightarrow> mk2d r c f = mk2d r c g"
proof -
  assume h: "\<And>i j. i < r \<Longrightarrow> j < c \<Longrightarrow> f i j = g i j"
  have "f (k div c) (k mod c) = g (k div c) (k mod c)" if "k < r * c" for k
  proof -
    have c: "0 < c" using that by (cases c) auto
    have "k div c < r" using that c by (simp add: less_mult_imp_div_less)
    moreover have "k mod c < c" using c by simp
    ultimately show ?thesis by (rule h)
  qed
  then show ?thesis by (simp add: mk2d_def)
qed

lemma mk2d_get2: "is2d r c a \<Longrightarrow> mk2d r c (get2 a) = a"
proof -
  assume h: "is2d r c a"
  then have s: "shape a = [r, c]" and l: "length (flat a) = r * c" by (simp_all add: is2d_def)
  have "map (\<lambda>k. get2 a (k div c) (k mod c)) [0..<r * c] = flat a"
  proof (rule nth_equalityI)
    show "length (map (\<lambda>k. get2 a (k div c) (k mod c)) [0..<r * c]) = length (flat a)"
      using l by simp
  next
    fix k assume "k < length (map (\<lambda>k. get2 a (k div c) (k mod c)) [0..<r * c])"
    then have "k < r * c" by simp
    then show "map (\<lambda>k. get2 a (k div c) (k mod c)) [0..<r * c] ! k = flat a ! k"
      by (simp add: get2_def ncols_def s)
  qed
  then show ?thesis using s by (cases a) (simp add: mk2d_def)
qed

lemma is2d_nrows: "is2d r c a \<Longrightarrow> nrows a = r"
  by (simp add: is2d_def nrows_def)

lemma is2d_ncols: "is2d r c a \<Longrightarrow> ncols a = c"
  by (simp add: is2d_def ncols_def)

lemma is2d_ext:
  "is2d r c a \<Longrightarrow> is2d r c b \<Longrightarrow> (\<And>i j. i < r \<Longrightarrow> j < c \<Longrightarrow> get2 a i j = get2 b i j) \<Longrightarrow> a = b"
  using mk2d_cong [of r c "get2 a" "get2 b"] mk2d_get2 [of r c a] mk2d_get2 [of r c b] by simp

section \<open>Properties of path enhancement\<close>

lemma linspace_neg: "num < 0 \<Longrightarrow> linspace fl a b num = Inl ValueError"
  by (simp add: linspace_def)

lemma linspace_error: "linspace fl a b num = Inl e \<Longrightarrow> e = ValueError"
  by (auto simp: linspace_def Let_def split: if_splits)


lemma linspace_Inr: "0 \<le> num \<Longrightarrow> \<exists>ys. linspace fl a b num = Inr ys \<and> length ys = nat num"
  by (auto simp: linspace_def Let_def)




lemma logspace_error: "logspace fl a b num base = Inl e \<Longrightarrow> e = ValueError"
  by (auto simp: logspace_def dest: linspace_error split: sum.splits)

lemma logspace_Inr:
  "0 \<le> num \<Longrightarrow> \<exists>ys. linspace fl a b num = Inr ys \<and> length ys = nat num \<and>
     logspace fl a b num base = Inr (map (np_power fl base) ys)"
  using linspace_Inr [of num fl a b] by (auto simp: logspace_def)






lemma np_maximum_out_error: "np_maximum_out a b = Inl e \<Longrightarrow> e = ValueError"
  by (auto simp: np_maximum_out_def split: if_splits)

lemma path_enhance_step_error:
  "path_enhance_step convolve R kern acc = Inl e \<Longrightarrow> e = ValueError"
  by (cases acc) (auto dest: np_maximum_out_error split: sum.splits)

lemma path_enhance_loop_error:
  "path_enhance_loop convolve diagonal_filter R n window zero_mean ratios acc = Inl e \<Longrightarrow>
   e = ValueError \<or> (\<exists>ratio. diagonal_filter window n ratio zero_mean = Inl e)"
  by (induction ratios arbitrary: acc) (auto dest: path_enhance_step_error split: sum.splits)

lemma np_clip_out_error: "np_clip_out acc = Inl e \<Longrightarrow> e = TypeError"
  by (cases acc) auto

lemma path_enhance_ratios_error:
  "path_enhance_ratios fl mx mo nf = Inl e \<Longrightarrow>
   e = ParameterError \<longleftrightarrow> (\<exists>m. mo = Some m \<and> m > mx)"
  by (auto simp: path_enhance_ratios_def path_enhance_min_ratio_def
      dest: logspace_error split: sum.splits option.splits if_splits)

lemma path_enhance_ratios_Inr:
  "path_enhance_ratios fl mx mo nf = Inr rs \<Longrightarrow> \<not> (\<exists>m. mo = Some m \<and> m > mx)"
  by (auto simp: path_enhance_ratios_def path_enhance_min_ratio_def
      split: sum.splits option.splits if_splits)

lemma path_enhance_ratios_default:
  "max_ratio \<noteq> 0 \<Longrightarrow>
   path_enhance_ratios fl max_ratio None n_filters =
   logspace fl (np_log2 fl (fl_round fl (1 / max_ratio))) (np_log2 fl max_ratio) n_filters 2"
  by (simp add: path_enhance_ratios_def path_enhance_min_ratio_def)

lemma path_enhance_ratios_supplied:
  "m \<le> max_ratio \<Longrightarrow>
   path_enhance_ratios fl max_ratio (Some m) n_filters =
   logspace fl (np_log2 fl m) (np_log2 fl max_ratio) n_filters 2"
  by (simp add: path_enhance_ratios_def path_enhance_min_ratio_def)

text \<open>
  Claim C8, amended. When \<open>min_ratio\<close> is not supplied, \<^verbatim>\<open>path_enhance\<close> sets it to
  \<open>1 / max_ratio\<close>: the ratios of its loop start from \<open>log2(1 / max_ratio)\<close>, and where
  \<open>1 / max_ratio \<le> max_ratio\<close> the call behaves as the call with \<open>min_ratio = 1 / max_ratio\<close>
  supplied. \<^verbatim>\<open>path_enhance\<close> raises ParameterError whenever a supplied \<open>min_ratio\<close> exceeds
  \<open>max_ratio\<close>; and when the kernel generator does not itself raise ParameterError (as it
  does for a \<open>window\<close> that it rejects), \<^verbatim>\<open>path_enhance\<close> raises ParameterError if and
  only if a supplied \<open>min_ratio\<close> exceeds \<open>max_ratio\<close>.
\<close>

theorem path_enhance_min_ratio_check:
  "(max_ratio \<noteq> 0 \<longrightarrow>
      path_enhance fl convolve diagonal_filter R n window max_ratio None n_filters zero_mean clip =
      (case logspace fl (np_log2 fl (fl_round fl (1 / max_ratio))) (np_log2 fl max_ratio)
              n_filters 2 of
         Inl e \<Rightarrow> Inl e
       | Inr ratios \<Rightarrow>
           (case path_enhance_loop convolve diagonal_filter R n window zero_mean ratios None of
              Inl e \<Rightarrow> Inl e
            | Inr acc \<Rightarrow> if clip then np_clip_out acc else Inr acc))) \<and>
   (max_ratio \<noteq> 0 \<and> fl_round fl (1 / max_ratio) \<le> max_ratio \<longrightarrow>
      path_enhance fl convolve diagonal_filter R n window max_ratio None n_filters zero_mean clip =
      path_enhance fl convolve diagonal_filter R n window max_ratio
        (Some (fl_round fl (1 / max_ratio))) n_filters zero_mean clip) \<and>
   (m > max_ratio \<longrightarrow>
      path_enhance fl convolve diagonal_filter R n window max_ratio (Some m) n_filters zero_mean clip
      = Inl ParameterError) \<and>
   ((\<forall>ratio. diagonal_filter window n ratio zero_mean \<noteq> Inl ParameterError) \<longrightarrow>
      (path_enhance fl convolve diagonal_filter R n window max_ratio min_ratio n_filters zero_mean
         clip = Inl ParameterError
       \<longleftrightarrow> (\<exists>m. min_ratio = Some m \<and> m > max_ratio)))"
proof (intro conjI impI)
  assume "max_ratio \<noteq> 0"
  then show "path_enhance fl convolve diagonal_filter R n window max_ratio None n_filters
        zero_mean clip =
      (case logspace fl (np_log2 fl (fl_round fl (1 / max_ratio))) (np_log2 fl max_ratio)
              n_filters 2 of
         Inl e \<Rightarrow> Inl e
       | Inr ratios \<Rightarrow>
           (case path_enhance_loop convolve diagonal_filter R n window zero_mean ratios None of
              Inl e \<Rightarrow> Inl e
            | Inr acc \<Rightarrow> if clip then np_clip_out acc else Inr acc))"
    by (simp add: path_enhance_def path_enhance_ratios_default)
next
  assume "max_ratio \<noteq> 0 \<and> fl_round fl (1 / max_ratio) \<le> max_ratio"
  then have "path_enhance_ratios fl max_ratio None n_filters =
      path_enhance_ratios fl max_ratio (Some (fl_round fl (1 / max_ratio))) n_filters"
    by (simp add: path_enhance_ratios_default path_enhance_ratios_supplied)
  then show "path_enhance fl convolve diagonal_filter R n window max_ratio None n_filters
        zero_mean clip =
      path_enhance fl convolve diagonal_filter R n window max_ratio
        (Some (fl_round fl (1 / max_ratio))) n_filters zero_mean clip"
    by (simp add: path_enhance_def)
next
  assume "m > max_ratio"
  then show "path_enhance fl convolve diagonal_filter R n window max_ratio (Some m) n_filters
      zero_mean clip = Inl ParameterError"
    by (simp add: path_enhance_def path_enhance_ratios_def path_enhance_min_ratio_def)
next
  assume df: "\<forall>ratio. diagonal_filter window n ratio zero_mean \<noteq> Inl ParameterError"
  show "path_enhance fl convolve diagonal_filter R n window max_ratio min_ratio n_filters zero_mean
         clip = Inl ParameterError
       \<longleftrightarrow> (\<exists>m. min_ratio = Some m \<and> m > max_ratio)"
  proof (cases "path_enhance_ratios fl max_ratio min_ratio n_filters")
    case (Inl e)
    then have "path_enhance fl convolve diagonal_filter R n window max_ratio min_ratio n_filters
        zero_mean clip = Inl e"
      by (simp add: path_enhance_def)
    then show ?thesis using path_enhance_ratios_error [OF Inl] by auto
  next
    case (Inr rs)
    have "path_enhance fl convolve diagonal_filter R n window max_ratio min_ratio n_filters
        zero_mean clip \<noteq> Inl ParameterError"
      using Inr df
      by (auto simp: path_enhance_def dest: path_enhance_loop_error np_clip_out_error
          split: sum.splits if_splits)
    then show ?thesis using path_enhance_ratios_Inr [OF Inr] by blast
  qed
qed

theorem path_enhance_min_ratio_check_witness:
  "(2 :: real) \<noteq> 0 \<and> (1 / 2 :: real) \<le> 2 \<and>
   path_enhance real_arithmetic (\<lambda>a k. a) (\<lambda>w n r z. Inr (NDArray [1, 1] [1]))
     (NDArray [1, 1] [3]) 1 () 2 None 3 False True =
   path_enhance real_arithmetic (\<lambda>a k. a) (\<lambda>w n r z. Inr (NDArray [1, 1] [1]))
     (NDArray [1, 1] [3]) 1 () 2 (Some (1 / 2)) 3 False True \<and>
   (3 :: real) > 2 \<and>
   path_enhance real_arithmetic (\<lambda>a k. a) (\<lambda>w n r z. Inr (NDArray [1, 1] [1]))
     (NDArray [1, 1] [3]) 1 () 2 (Some 3) 3 False True = Inl ParameterError \<and>
   path_enhance real_arithmetic (\<lambda>a k. a) (\<lambda>w n r z. Inr (NDArray [1, 1] [1]))
     (NDArray [1, 1] [3]) 1 () 2 (Some 1) 3 False True \<noteq> Inl ParameterError"
  using path_enhance_min_ratio_check [of 2 real_arithmetic "\<lambda>a k. a"
      "\<lambda>w n r z. Inr (NDArray [1, 1] [1])" "NDArray [1, 1] [3]" 1 "()" 3 False True 3 "Some 3"]
    path_enhance_min_ratio_check [of 2 real_arithmetic "\<lambda>a k. a"
      "\<lambda>w n r z. Inr (NDArray [1, 1] [1])" "NDArray [1, 1] [3]" 1 "()" 3 False True 3 "Some 1"]
  by simp

text \<open>
  A window given as an array is rejected by the kernel generator with ParameterError when
  its length is not \<open>n\<close>, and so \<^verbatim>\<open>path_enhance\<close> raises ParameterError although no
  \<open>min_ratio\<close> is supplied.
\<close>

theorem path_enhance_min_ratio_check_counterexample:
  "path_enhance real_arithmetic (\<lambda>a k. a)
     (\<lambda>w n r z. if int (length w) = n then Inr (NDArray [1, 1] [1]) else Inl ParameterError)
     (NDArray [1, 1] [3]) 3 [1, 1 :: real] 2 None 3 False True = Inl ParameterError"
proof -
  have n3: "[0..<3] = [0, 1, 2::nat]" by (simp add: numeral_3_eq_3 upt_rec)
  show ?thesis
    by (simp add: path_enhance_def path_enhance_ratios_def path_enhance_min_ratio_def
        logspace_def linspace_def Let_def n3)
qed

lemma path_enhance_loop_Some:
  "\<forall>a k. shape (convolve a k) = shape a \<Longrightarrow>
   \<forall>ratio. \<exists>kern. diagonal_filter window n ratio zero_mean = Inr kern \<Longrightarrow>
   shape acc = shape R \<Longrightarrow>
   \<exists>M. path_enhance_loop convolve diagonal_filter R n window zero_mean ratios (Some acc)
        = Inr (Some M) \<and> shape M = shape R"
proof (induction ratios arbitrary: acc)
  case Nil
  then show ?case by simp
next
  case (Cons r rs)
  from Cons.prems(2) obtain kern where k: "diagonal_filter window n r zero_mean = Inr kern"
    by blast
  have s: "shape (convolve R kern) = shape R" using Cons.prems(1) by simp
  define acc' where "acc' = NDArray (shape acc) (map2 max (flat acc) (flat (convolve R kern)))"
  have a: "shape acc' = shape R" using Cons.prems(3) by (simp add: acc'_def)
  from Cons.IH [of acc'] Cons.prems(1,2) a obtain M where
    "path_enhance_loop convolve diagonal_filter R n window zero_mean rs (Some acc')
       = Inr (Some M)" "shape M = shape R" by blast
  then show ?case using k s Cons.prems(3) by (simp add: np_maximum_out_def acc'_def)
qed

lemma path_enhance_returns:
  assumes "\<forall>a k. shape (convolve a k) = shape a"
    and "\<forall>ratio. \<exists>kern. diagonal_filter window n ratio zero_mean = Inr kern"
    and "1 \<le> n_filters"
    and "path_enhance_min_ratio fl max_ratio min_ratio = Inr mn"
  shows "\<exists>M. path_enhance fl convolve diagonal_filter R n window max_ratio min_ratio n_filters
           zero_mean clip = Inr (Some M) \<and> shape M = shape R"
proof -
  from assms(3) have nf: "0 \<le> n_filters" by simp
  from logspace_Inr [OF nf, of fl "np_log2 fl mn" "np_log2 fl max_ratio" 2] obtain es where
    es: "length es = nat n_filters"
        "logspace fl (np_log2 fl mn) (np_log2 fl max_ratio) n_filters 2
           = Inr (map (np_power fl 2) es)"
    by blast
  then obtain r rs' where c: "map (np_power fl 2) es = r # rs'"
    using assms(3) by (cases es) auto
  from assms(2) obtain kern where k: "diagonal_filter window n r zero_mean = Inr kern"
    by blast
  have "shape (convolve R kern) = shape R"
    using assms(1) by simp
  from path_enhance_loop_Some [where convolve = convolve and diagonal_filter = diagonal_filter
      and window = window and n = n and zero_mean = zero_mean and ratios = rs'
      and acc = "convolve R kern" and R = R, OF assms(1,2) this]
  obtain M where "path_enhance_loop convolve diagonal_filter R n window zero_mean rs'
      (Some (convolve R kern)) = Inr (Some M)" "shape M = shape R"
    by blast
  then show ?thesis using es(2) c k assms(4)
    by (cases clip) (auto simp: path_enhance_def path_enhance_ratios_def)
qed

lemma path_enhance_clip_entries:
  "path_enhance fl convolve diagonal_filter R n window max_ratio min_ratio n_filters zero_mean True
     = Inr (Some M) \<Longrightarrow> \<forall>x \<in> set (flat M). 0 \<le> x"
  by (auto simp: path_enhance_def split: sum.splits elim!: np_clip_out.elims)

text \<open>
  Claim C9. Whatever the convolution primitive and the kernel generator do, a matrix
  returned by \<^verbatim>\<open>path_enhance\<close> with \<open>clip=True\<close> has no negative entry; and such a
  matrix, of the shape of \<open>R\<close>, is returned whenever the convolution keeps the shape of its
  input, the kernel generator returns its kernels, there is at least one filter and the
  \<open>min_ratio\<close> lines pass.
\<close>

theorem path_enhance_clip_nonneg:
  "(path_enhance fl convolve diagonal_filter R n window max_ratio min_ratio n_filters zero_mean True
      = Inr (Some M) \<longrightarrow> (\<forall>x \<in> set (flat M). 0 \<le> x)) \<and>
   ((\<forall>a k. shape (convolve a k) = shape a) \<and>
    (\<forall>ratio. \<exists>kern. diagonal_filter window n ratio zero_mean = Inr kern) \<and>
    1 \<le> n_filters \<and>
    path_enhance_min_ratio fl max_ratio min_ratio = Inr mn \<longrightarrow>
    (\<exists>S. path_enhance fl convolve diagonal_filter R n window max_ratio min_ratio n_filters
            zero_mean True = Inr (Some S) \<and>
          shape S = shape R \<and> (\<forall>x \<in> set (flat S). 0 \<le> x)))"
proof (intro conjI impI)
  assume "path_enhance fl convolve diagonal_filter R n window max_ratio min_ratio n_filters
      zero_mean True = Inr (Some M)"
  then show "\<forall>x \<in> set (flat M). 0 \<le> x" by (rule path_enhance_clip_entries)
next
  assume h: "(\<forall>a k. shape (convolve a k) = shape a) \<and>
    (\<forall>ratio. \<exists>kern. diagonal_filter window n ratio zero_mean = Inr kern) \<and>
    1 \<le> n_filters \<and>
    path_enhance_min_ratio fl max_ratio min_ratio = Inr mn"
  then obtain S where S: "path_enhance fl convolve diagonal_filter R n window max_ratio min_ratio
      n_filters zero_mean True = Inr (Some S)" "shape S = shape R"
    using path_enhance_returns [of convolve diagonal_filter window n zero_mean n_filters fl
        max_ratio min_ratio mn R True]
    by blast
  have "\<forall>x \<in> set (flat S). 0 \<le> x" using S(1) by (rule path_enhance_clip_entries)
  with S show "\<exists>S. path_enhance fl convolve diagonal_filter R n window max_ratio min_ratio
      n_filters zero_mean True = Inr (Some S) \<and>
      shape S = shape R \<and> (\<forall>x \<in> set (flat S). 0 \<le> x)"
    by blast
qed

theorem path_enhance_clip_nonneg_witness:
  "path_enhance real_arithmetic (\<lambda>a k. NDArray (shape a) (map uminus (flat a)))
     (\<lambda>w n r z. Inr (NDArray [1, 1] [1]))
     (NDArray [1, 2] [1, - 2]) 1 () 1 (Some 1) 1 False True = Inr (Some (NDArray [1, 2] [0, 2]))
   \<and> list_all (\<lambda>x. 0 \<le> x) (flat (NDArray [1, 2] [0, 2 :: real]))
   \<and> path_enhance_min_ratio real_arithmetic 1 (Some 1) = Inr 1
   \<and> (\<exists>S. path_enhance real_arithmetic (\<lambda>a k. NDArray (shape a) (map uminus (flat a)))
          (\<lambda>w n r z. Inr (NDArray [1, 1] [1])) (NDArray [1, 2] [1, - 2]) 1 () 1 (Some 1) 1
          False True
          = Inr (Some S) \<and> shape S = [1, 2] \<and> list_all (\<lambda>x. 0 \<le> x) (flat S))"
proof -
  have e: "path_enhance real_arithmetic (\<lambda>a k. NDArray (shape a) (map uminus (flat a)))
     (\<lambda>w n r z. Inr (NDArray [1, 1] [1]))
     (NDArray [1, 2] [1, - 2]) 1 () 1 (Some 1) 1 False True = Inr (Some (NDArray [1, 2] [0, 2]))"
    by (simp add: path_enhance_def path_enhance_ratios_def path_enhance_min_ratio_def
        logspace_def linspace_def)
  have m: "path_enhance_min_ratio real_arithmetic 1 (Some 1) = Inr 1"
    by (simp add: path_enhance_min_ratio_def)
  note t = path_enhance_clip_nonneg [of real_arithmetic
        "\<lambda>a k. NDArray (shape a) (map uminus (flat a))"
        "\<lambda>w n r z. Inr (NDArray [1, 1] [1])" "NDArray [1, 2] [1, - 2]" 1 "()" 1 "Some 1" 1 False
        "NDArray [1, 2] [0, 2]" 1]
  have 1: "list_all (\<lambda>x. 0 \<le> x) (flat (NDArray [1, 2] [0, 2 :: real]))"
    using t e by (simp add: list_all_iff)
  have 2: "\<exists>S. path_enhance real_arithmetic (\<lambda>a k. NDArray (shape a) (map uminus (flat a)))
          (\<lambda>w n r z. Inr (NDArray [1, 1] [1])) (NDArray [1, 2] [1, - 2]) 1 () 1 (Some 1) 1
          False True
          = Inr (Some S) \<and> shape S = [1, 2] \<and> list_all (\<lambda>x. 0 \<le> x) (flat S)"
    using t m by (simp add: list_all_iff)
  show ?thesis using e m 1 2 by blast
qed

text \<open>
  Claim C10, amended. With \<open>n_filters = 0\<close> and \<open>clip=False\<close> the loop body never runs and
  \<^verbatim>\<open>path_enhance\<close> returns the \<open>None\<close> accumulator, for every \<open>R\<close> and all ratio
  arguments that pass the \<open>min_ratio\<close> lines. With \<open>clip=True\<close> the clipping is applied to
  \<open>None\<close> and no \<open>None\<close> is returned.
\<close>

theorem path_enhance_no_filters:
  "path_enhance_min_ratio fl max_ratio min_ratio = Inr mn \<Longrightarrow>
   path_enhance fl convolve diagonal_filter R n window max_ratio min_ratio 0 zero_mean False
   = Inr None"
  by (simp add: path_enhance_def path_enhance_ratios_def logspace_def linspace_def)

theorem path_enhance_no_filters_witness:
  "path_enhance_min_ratio real_arithmetic 2 None = Inr (1 / 2) \<and>
   path_enhance real_arithmetic (\<lambda>a k. a) (\<lambda>w n r z. Inr (NDArray [1, 1] [1]))
     (NDArray [1, 1] [3]) 1 () 2 None 0 False False = Inr None"
proof -
  have h: "path_enhance_min_ratio real_arithmetic 2 None = Inr (1 / 2)"
    by (simp add: path_enhance_min_ratio_def)
  show ?thesis using h path_enhance_no_filters [OF h] by simp
qed

theorem path_enhance_no_filters_counterexample:
  "path_enhance real_arithmetic (\<lambda>a k. a) (\<lambda>w n r z. Inr (NDArray [1, 1] [1]))
     (NDArray [1, 1] [3]) 1 () 2 None 0 False True \<noteq> Inr None"
  by (simp add: path_enhance_def path_enhance_ratios_def path_enhance_min_ratio_def
      logspace_def linspace_def)

section \<open>Properties of the time-lag transforms\<close>

lemma length_roll_sparse [simp]: "length (roll_sparse x s) = length x"
  by (simp add: roll_sparse_def)

lemma roll_index_less: "k < n \<Longrightarrow> nat ((int k - s) mod int n) < n"
proof -
  assume "k < n"
  then have n: "0 < int n" by simp
  have "0 \<le> (int k - s) mod int n" "(int k - s) mod int n < int n"
    using n by (simp_all only: pos_mod_sign pos_mod_bound)
  then show ?thesis by linarith
qed

lemma roll_sparse_nth:
  "k < length x \<Longrightarrow> roll_sparse x s ! k = x ! nat ((int k - s) mod int (length x))"
  by (simp add: roll_sparse_def)

lemma roll_index_inverse:
  assumes "k < n"
  shows "nat ((int (nat ((int k - s) mod int n)) - (- s)) mod int n) = k"
proof -
  have n: "0 < int n" using assms by simp
  have nn: "0 \<le> (int k - s) mod int n" using n by (simp only: pos_mod_sign)
  have "(int (nat ((int k - s) mod int n)) - (- s)) mod int n
      = ((int k - s) mod int n + s) mod int n"
    using nn by simp
  also have "\<dots> = (int k - s + s) mod int n" by (simp only: mod_add_left_eq)
  also have "\<dots> = int k" using assms by simp
  finally show ?thesis by simp
qed

lemma roll_index_inverse':
  assumes "k < n"
  shows "nat ((int (nat ((int k - (- s)) mod int n)) - s) mod int n) = k"
  using roll_index_inverse [OF assms, of "- s"] by simp

text \<open>One pass of the loop body on tabulated arrays: slice \<open>i\<close> of the source \<open>f\<close> is
  rolled and written into the target \<open>g\<close>.\<close>

lemma set_slice_roll_mk2d:
  assumes "i < (if ax = 0 then r else c)"
  shows "set_slice ax i (roll_sparse (get_slice ax i (mk2d r c f)) s) (mk2d r c g) =
     mk2d r c (\<lambda>a b. if ax = 0
        then (if a = i then f i (nat ((int b - s) mod int c)) else g a b)
        else (if b = i then f (nat ((int a - s) mod int r)) i else g a b))"
proof (cases "ax = 0")
  case True
  then have i: "i < r" using assms by simp
  have gs: "get_slice ax i (mk2d r c f) = map (\<lambda>j. f i j) [0..<c]"
    using True i by (simp add: get_slice_def)
  show ?thesis unfolding set_slice_def gs
  proof (simp only: nrows_mk2d ncols_mk2d, rule mk2d_cong)
    fix a b assume ab: "a < r" "b < c"
    have "nat ((int b - s) mod int c) < c" using ab by (simp only: roll_index_less)
    then show "(if ax = 0
          then if a = i then roll_sparse (map (f i) [0..<c]) s ! b else get2 (mk2d r c g) a b
          else if b = i then roll_sparse (map (f i) [0..<c]) s ! a else get2 (mk2d r c g) a b) =
         (if ax = 0 then if a = i then f i (nat ((int b - s) mod int c)) else g a b
          else if b = i then f (nat ((int a - s) mod int r)) i else g a b)"
      using True ab by (simp add: roll_sparse_nth)
  qed
next
  case False
  then have i: "i < c" using assms by simp
  have gs: "get_slice ax i (mk2d r c f) = map (\<lambda>j. f j i) [0..<r]"
    using False i by (simp add: get_slice_def)
  show ?thesis unfolding set_slice_def gs
  proof (simp only: nrows_mk2d ncols_mk2d, rule mk2d_cong)
    fix a b assume ab: "a < r" "b < c"
    have "nat ((int a - s) mod int r) < r" using ab by (simp only: roll_index_less)
    then show "(if ax = 0
          then if a = i then roll_sparse (map (\<lambda>j. f j i) [0..<r]) s ! b else get2 (mk2d r c g) a b
          else if b = i then roll_sparse (map (\<lambda>j. f j i) [0..<r]) s ! a else get2 (mk2d r c g) a b) =
         (if ax = 0 then if a = i then f i (nat ((int b - s) mod int c)) else g a b
          else if b = i then f (nat ((int a - s) mod int r)) i else g a b)"
      using False ab by (simp add: roll_sparse_nth)
  qed
qed

lemma upt_1_Suc: "1 \<le> k \<Longrightarrow> [1..<Suc k] = [1..<k] @ [k]"
  by simp

text \<open>The loop of \<open>recurrence_to_lag\<close>, which reads the array it writes.\<close>

lemma recurrence_to_lag_loop:
  assumes "k \<le> (if ax = 0 then r else c)"
  shows "fold (\<lambda>i lag. set_slice ax i (roll_sparse (get_slice ax i lag) (- int i)) lag)
           [1..<k] (mk2d r c f) =
     mk2d r c (\<lambda>a b. if ax = 0
        then (if 1 \<le> a \<and> a < k then f a (nat ((int b - (- int a)) mod int c)) else f a b)
        else (if 1 \<le> b \<and> b < k then f (nat ((int a - (- int b)) mod int r)) b else f a b))"
  using assms
proof (induction k)
  case 0
  show ?case by (simp cong: if_cong)
next
  case (Suc k)
  show ?case
  proof (cases "1 \<le> k")
    case False
    then have "k = 0" by simp
    then show ?thesis by (auto intro!: mk2d_cong)
  next
    case True
    let ?F = "\<lambda>a b. if ax = 0
        then (if 1 \<le> a \<and> a < k then f a (nat ((int b - (- int a)) mod int c)) else f a b)
        else (if 1 \<le> b \<and> b < k then f (nat ((int a - (- int b)) mod int r)) b else f a b)"
    have k: "k < (if ax = 0 then r else c)" using Suc.prems by simp
    then have k': "k \<le> (if ax = 0 then r else c)" by simp
    have "fold (\<lambda>i lag. set_slice ax i (roll_sparse (get_slice ax i lag) (- int i)) lag)
           [1..<Suc k] (mk2d r c f) =
          set_slice ax k (roll_sparse (get_slice ax k (mk2d r c ?F)) (- int k)) (mk2d r c ?F)"
      using Suc.IH [OF k'] by (simp only: upt_1_Suc [OF True] fold_append comp_def fold_simps)
    also have "\<dots> = mk2d r c (\<lambda>a b. if ax = 0
        then (if a = k then ?F k (nat ((int b - (- int k)) mod int c)) else ?F a b)
        else (if b = k then ?F (nat ((int a - (- int k)) mod int r)) k else ?F a b))"
      by (rule set_slice_roll_mk2d [OF k])
    also have "\<dots> = mk2d r c (\<lambda>a b. if ax = 0
        then (if 1 \<le> a \<and> a < Suc k then f a (nat ((int b - (- int a)) mod int c)) else f a b)
        else (if 1 \<le> b \<and> b < Suc k then f (nat ((int a - (- int b)) mod int r)) b else f a b))"
      using True by (intro mk2d_cong) (auto simp: less_Suc_eq)
    finally show ?thesis .
  qed
qed

text \<open>The loop of \<open>lag_to_recurrence\<close>, which reads \<open>lag\<close> and writes \<open>rec\<close>.\<close>

lemma lag_to_recurrence_fold:
  assumes "k \<le> (if ax = 0 then r else c)"
  shows "fold (\<lambda>i rec. set_slice ax i (roll_sparse (get_slice ax i (mk2d r c f)) (int i)) rec)
           [1..<k] (mk2d r c g) =
     mk2d r c (\<lambda>a b. if ax = 0
        then (if 1 \<le> a \<and> a < k then f a (nat ((int b - int a) mod int c)) else g a b)
        else (if 1 \<le> b \<and> b < k then f (nat ((int a - int b) mod int r)) b else g a b))"
  using assms
proof (induction k)
  case 0
  show ?case by (simp cong: if_cong)
next
  case (Suc k)
  show ?case
  proof (cases "1 \<le> k")
    case False
    then have "k = 0" by simp
    then show ?thesis by (auto intro!: mk2d_cong)
  next
    case True
    let ?G = "\<lambda>a b. if ax = 0
        then (if 1 \<le> a \<and> a < k then f a (nat ((int b - int a) mod int c)) else g a b)
        else (if 1 \<le> b \<and> b < k then f (nat ((int a - int b) mod int r)) b else g a b)"
    have k: "k < (if ax = 0 then r else c)" using Suc.prems by simp
    then have k': "k \<le> (if ax = 0 then r else c)" by simp
    have "fold (\<lambda>i rec. set_slice ax i (roll_sparse (get_slice ax i (mk2d r c f)) (int i)) rec)
           [1..<Suc k] (mk2d r c g) =
          set_slice ax k (roll_sparse (get_slice ax k (mk2d r c f)) (int k)) (mk2d r c ?G)"
      using Suc.IH [OF k'] by (simp only: upt_1_Suc [OF True] fold_append comp_def fold_simps)
    also have "\<dots> = mk2d r c (\<lambda>a b. if ax = 0
        then (if a = k then f k (nat ((int b - int k) mod int c)) else ?G a b)
        else (if b = k then f (nat ((int a - int k) mod int r)) k else ?G a b))"
      by (rule set_slice_roll_mk2d [OF k])
    also have "\<dots> = mk2d r c (\<lambda>a b. if ax = 0
        then (if 1 \<le> a \<and> a < Suc k then f a (nat ((int b - int a) mod int c)) else g a b)
        else (if 1 \<le> b \<and> b < Suc k then f (nat ((int a - int b) mod int r)) b else g a b))"
      using True by (intro mk2d_cong) (auto simp: less_Suc_eq)
    finally show ?thesis .
  qed
qed

lemma getitem_slice_subscriptable:
  "subscriptable lag \<Longrightarrow> getitem_slice lag ax i = Inr (get_slice ax i (toarray lag))"
  by (cases lag) (auto split: sparse_format.splits)

lemma lag_to_recurrence_loop_fold:
  "subscriptable lag \<Longrightarrow>
   lag_to_recurrence_loop lag ax is rec =
     Inr (fold (\<lambda>i rec. set_slice ax i (roll_sparse (get_slice ax i (toarray lag)) (int i)) rec)
            is rec)"
  by (induction "is" arbitrary: rec) (simp_all add: getitem_slice_subscriptable)

lemma toarray_as_input [simp]: "toarray (as_input m b) = b"
  by (cases m) simp_all

lemma subscriptable_as_input [simp]: "subscriptable (as_input m b) = subscriptable m"
  by (cases m) simp_all

lemma as_input_as_input [simp]: "as_input (as_input m b) c = as_input m c"
  by (cases m) simp_all

lemma as_input_toarray [simp]: "as_input m (toarray m) = m"
  by (cases m) simp_all

text \<open>Padding a square array, by \<open>np.pad\<close> or by the Kronecker product.\<close>

lemma pad_square:
  assumes "is2d n n a" "ax = 0 \<or> ax = 1"
  shows "np_pad (1 - ax) n a =
           mk2d (if ax = 0 then n else 2 * n) (if ax = 0 then 2 * n else n)
             (\<lambda>i j. if i < n \<and> j < n then get2 a i j else 0)"
    and "kron_pad ax a =
           mk2d (if ax = 0 then n else 2 * n) (if ax = 0 then 2 * n else n)
             (\<lambda>i j. if i < n \<and> j < n then get2 a i j else 0)"
proof -
  have r: "nrows a = n" and c: "ncols a = n"
    using assms(1) by (simp_all add: is2d_nrows is2d_ncols)
  have n2: "n + n = 2 * n" by simp
  show "np_pad (1 - ax) n a =
           mk2d (if ax = 0 then n else 2 * n) (if ax = 0 then 2 * n else n)
             (\<lambda>i j. if i < n \<and> j < n then get2 a i j else 0)"
    using assms(2) by (auto simp: np_pad_def r c n2 intro!: mk2d_cong)
  show "kron_pad ax a =
           mk2d (if ax = 0 then n else 2 * n) (if ax = 0 then 2 * n else n)
             (\<lambda>i j. if i < n \<and> j < n then get2 a i j else 0)"
    using assms(2) by (auto simp: kron_pad_def r c intro!: mk2d_cong)
qed

lemma roundtrip_array:
  fixes a :: "'a::zero ndarray"
  assumes a: "is2d n n a" and ax: "ax = 0 \<or> ax = 1"
  defines "R \<equiv> (if ax = 0 then n else 2 * n)" and "C \<equiv> (if ax = 0 then 2 * n else n)"
  defines "P \<equiv> mk2d R C (\<lambda>i j. if i < n \<and> j < n then get2 a i j else 0)"
  defines "F \<equiv> fold (\<lambda>i lag. set_slice ax i (roll_sparse (get_slice ax i lag) (- int i)) lag)
                   [1..<n] P"
  shows "is2d R C F"
    and "take_axis (1 - ax) n
           (fold (\<lambda>i rec. set_slice ax i (roll_sparse (get_slice ax i F) (int i)) rec) [1..<n] F)
         = a"
proof -
  let ?p = "\<lambda>i j. if i < n \<and> j < n then get2 a i j else 0"
  let ?f = "\<lambda>i j. if ax = 0
        then (if 1 \<le> i \<and> i < n then ?p i (nat ((int j - (- int i)) mod int C)) else ?p i j)
        else (if 1 \<le> j \<and> j < n then ?p (nat ((int i - (- int j)) mod int R)) j else ?p i j)"
  let ?b = "\<lambda>i j. if ax = 0
        then (if 1 \<le> i \<and> i < n then ?f i (nat ((int j - int i) mod int C)) else ?f i j)
        else (if 1 \<le> j \<and> j < n then ?f (nat ((int i - int j) mod int R)) j else ?f i j)"
  have n: "n \<le> (if ax = 0 then R else C)" using ax by (auto simp: R_def C_def)
  have F: "F = mk2d R C ?f"
    unfolding F_def P_def by (rule recurrence_to_lag_loop [OF n])
  show "is2d R C F" by (simp only: F is2d_mk2d)
  have B: "fold (\<lambda>i rec. set_slice ax i (roll_sparse (get_slice ax i F) (int i)) rec) [1..<n] F
        = mk2d R C ?b"
    unfolding F by (rule lag_to_recurrence_fold [OF n])
  have RC: "n \<le> R" "n \<le> C" by (simp_all add: R_def C_def)
  have entry: "?b i j = get2 a i j" if ij: "i < n" "j < n" for i j
  proof (cases "ax = 0")
    case True
    show ?thesis
    proof (cases "1 \<le> i")
      case False
      then show ?thesis using True ij by simp
    next
      case i1: True
      have jC: "j < C" using ij RC by simp
      have "nat ((int (nat ((int j - int i) mod int C)) - (- int i)) mod int C) = j"
        by (rule roll_index_inverse [OF jC])
      then show ?thesis using True i1 ij by simp
    qed
  next
    case False
    show ?thesis
    proof (cases "1 \<le> j")
      case j0: False
      then show ?thesis using False ij by simp
    next
      case j1: True
      have iR: "i < R" using ij RC by simp
      have "nat ((int (nat ((int i - int j) mod int R)) - (- int j)) mod int R) = i"
        by (rule roll_index_inverse [OF iR])
      then show ?thesis using False j1 ij by simp
    qed
  qed
  have "take_axis (1 - ax) n (mk2d R C ?b) = mk2d n n (get2 (mk2d R C ?b))"
    using ax by (auto simp: take_axis_def R_def C_def)
  also have "\<dots> = mk2d n n (get2 a)"
  proof (rule mk2d_cong)
    fix i j assume ij: "i < n" "j < n"
    then have "i < R" "j < C" using RC by simp_all
    then have "get2 (mk2d R C ?b) i j = ?b i j" by (rule get2_mk2d)
    then show "get2 (mk2d R C ?b) i j = get2 a i j" using entry [OF ij] by (simp only:)
  qed
  also have "\<dots> = a" by (rule mk2d_get2 [OF a])
  finally show "take_axis (1 - ax) n
           (fold (\<lambda>i rec. set_slice ax i (roll_sparse (get_slice ax i F) (int i)) rec) [1..<n] F)
         = a"
    by (simp only: B)
qed

lemma recurrence_to_lag_square:
  fixes M :: "'a::zero matrix"
  assumes a: "is2d n n (toarray M)" and ax: "ax = 0 \<or> ax = 1" and axis: "\<bar>axis\<bar> = int ax"
  shows "recurrence_to_lag M True axis =
     Inr (as_input M
       (fold (\<lambda>i lag. set_slice ax i (roll_sparse (get_slice ax i lag) (- int i)) lag) [1..<n]
          (mk2d (if ax = 0 then n else 2 * n) (if ax = 0 then 2 * n else n)
             (\<lambda>i j. if i < n \<and> j < n then get2 (toarray M) i j else 0))))"
proof -
  have s: "shape (toarray M) = [n, n]" using a by (simp add: is2d_def)
  have t: "tuple_index [n, n] (int ax) = Inr n"
    using ax by (auto simp: tuple_index_def)
  have na: "nat \<bar>axis\<bar> = ax" using axis by simp
  have p: "(case M of Sparse x xa \<Rightarrow> kron_pad (nat \<bar>axis\<bar>) (toarray M)
            | Dense x \<Rightarrow> np_pad (1 - nat \<bar>axis\<bar>) n (toarray M)) =
      mk2d (if ax = 0 then n else 2 * n) (if ax = 0 then 2 * n else n)
             (\<lambda>i j. if i < n \<and> j < n then get2 (toarray M) i j else 0)"
    using pad_square [OF a ax] by (cases M) (simp_all add: na)
  have t': "tuple_index [n, n] \<bar>axis\<bar> = Inr n" using t axis by simp
  show ?thesis
    unfolding recurrence_to_lag_def Let_def
    by (simp add: t' s p ndim_def del: One_nat_def) (simp add: na)
qed

lemma lag_to_recurrence_padded:
  assumes L: "is2d (if ax = 0 then n else 2 * n) (if ax = 0 then 2 * n else n) (toarray L)"
    and ax: "ax = 0 \<or> ax = 1" and axis: "axis \<in> {0, 1, - 1}" "\<bar>axis\<bar> = int ax"
    and sub: "subscriptable L"
  shows "lag_to_recurrence L axis =
     Inr (as_input L (take_axis (1 - ax) n
       (fold (\<lambda>i rec. set_slice ax i (roll_sparse (get_slice ax i (toarray L)) (int i)) rec)
          [1..<n] (toarray L))))"
proof -
  have s: "shape (toarray L) = [if ax = 0 then n else 2 * n, if ax = 0 then 2 * n else n]"
    using L by (simp add: is2d_def)
  have v: "\<not> axis \<notin> set [0, 1, - 1]" using axis(1) by auto
  have t: "shape (toarray L) ! ax = n" using ax by (auto simp: s)
  have ok: "\<not> (ndim (toarray L) \<noteq> 2 \<or>
       (shape (toarray L) ! 0 \<noteq> shape (toarray L) ! 1 \<and>
        shape (toarray L) ! (1 - ax) \<noteq> 2 * n))"
    using ax by (auto simp: s ndim_def)
  show ?thesis
    unfolding lag_to_recurrence_def Let_def
    by (simp only: v if_False axis(2) nat_int ok t lag_to_recurrence_loop_fold [OF sub]
        sum.case)
qed

lemma lag_to_recurrence_recurrence_to_lag:
  fixes M :: "'a::zero matrix"
  assumes a: "is2d n n (toarray M)" and axis: "axis \<in> {0, 1, - 1}" and sub: "subscriptable M"
  shows "\<exists>L. recurrence_to_lag M True axis = Inr L \<and> lag_to_recurrence L axis = Inr M"
proof -
  obtain ax where ax: "ax = 0 \<or> ax = 1" and abs: "\<bar>axis\<bar> = int ax"
  proof -
    have "\<bar>axis\<bar> = int 0 \<or> \<bar>axis\<bar> = int 1" using axis by auto
    then show ?thesis using that by blast
  qed
  let ?R = "if ax = 0 then n else 2 * n" and ?C = "if ax = 0 then 2 * n else n"
  let ?F = "fold (\<lambda>i lag. set_slice ax i (roll_sparse (get_slice ax i lag) (- int i)) lag) [1..<n]
          (mk2d ?R ?C (\<lambda>i j. if i < n \<and> j < n then get2 (toarray M) i j else 0))"
  let ?L = "as_input M ?F"
  have fwd: "recurrence_to_lag M True axis = Inr ?L"
    by (rule recurrence_to_lag_square [OF a ax abs])
  have F2: "is2d ?R ?C (toarray ?L)"
    using roundtrip_array(1) [OF a ax] by (simp only: toarray_as_input)
  have subL: "subscriptable ?L" using sub by simp
  have "lag_to_recurrence ?L axis = Inr (as_input ?L (take_axis (1 - ax) n
       (fold (\<lambda>i rec. set_slice ax i (roll_sparse (get_slice ax i (toarray ?L)) (int i)) rec)
          [1..<n] (toarray ?L))))"
    by (rule lag_to_recurrence_padded [OF F2 ax axis abs subL])
  also have "\<dots> = Inr (as_input M (toarray M))"
    using roundtrip_array(2) [OF a ax] by (simp only: toarray_as_input as_input_as_input)
  finally have "lag_to_recurrence ?L axis = Inr M" by simp
  with fwd show ?thesis by blast
qed

lemma recurrence_to_lag_nonsquare:
  "ndim (toarray M) \<noteq> 2 \<or> shape (toarray M) ! 0 \<noteq> shape (toarray M) ! 1 \<Longrightarrow>
   recurrence_to_lag M pad axis = Inl ParameterError"
  by (simp add: recurrence_to_lag_def Let_def)

lemma lag_to_recurrence_invalid_axis:
  "axis \<notin> {0, 1, - 1} \<Longrightarrow> lag_to_recurrence L axis = Inl ParameterError"
  by (simp add: lag_to_recurrence_def)

lemma lag_to_recurrence_invalid_shape:
  assumes "ndim (toarray L) \<noteq> 2 \<or>
     (shape (toarray L) ! 0 \<noteq> shape (toarray L) ! 1 \<and>
      shape (toarray L) ! (1 - nat \<bar>axis\<bar>) \<noteq> 2 * shape (toarray L) ! nat \<bar>axis\<bar>)"
  shows "lag_to_recurrence L axis = Inl ParameterError"
  using assms by (simp add: lag_to_recurrence_def Let_def)

text \<open>
  Claim C6. Both transforms should raise ParameterError for an invalid axis. The shape
  checks do (lemmas \<open>recurrence_to_lag_nonsquare\<close>, \<open>lag_to_recurrence_invalid_shape\<close>),
  and so does the axis check of \<^verbatim>\<open>lag_to_recurrence\<close>
  (\<open>lag_to_recurrence_invalid_axis\<close>); \<^verbatim>\<open>recurrence_to_lag\<close> has no axis check, and for
  a square matrix and \<open>axis = 2\<close> it raises IndexError from the shape tuple.
\<close>

theorem recurrence_to_lag_invalid_axis:
  "recurrence_to_lag (Dense (NDArray [2, 2] [1, 0, 0, 1 :: int])) True 2 = Inl IndexError \<and>
   lag_to_recurrence (Dense (NDArray [2, 2] [1, 0, 0, 1 :: int])) 2 = Inl ParameterError"
  by (simp add: recurrence_to_lag_def lag_to_recurrence_def tuple_index_def ndim_def)

theorem recurrence_to_lag_invalid_axis_witness:
  "recurrence_to_lag (Dense (NDArray [2, 2] [1, 0, 0, 1 :: int])) True 2 = Inl IndexError"
  using recurrence_to_lag_invalid_axis by (rule conjunct1)

text \<open>
  Claim C1. Applying \<^verbatim>\<open>recurrence_to_lag\<close> with \<open>pad=True\<close> and then
  \<^verbatim>\<open>lag_to_recurrence\<close> should return the square matrix it started from, in the same
  format. Lemma \<open>lag_to_recurrence_recurrence_to_lag\<close> proves this for arrays and for
  sparse matrices whose format can be indexed. For a \<open>2 \<times> 2\<close> matrix in COO format the
  first transform returns a COO matrix, and the second raises TypeError when it reads a
  slice of it.
\<close>

theorem lag_to_recurrence_coo:
  "recurrence_to_lag (Sparse COO (NDArray [2, 2] [1, 2, 3, 4 :: int])) True (- 1) =
     Inr (Sparse COO (NDArray [4, 2] [1, 4, 3, 0, 0, 0, 0, 2])) \<and>
   lag_to_recurrence (Sparse COO (NDArray [4, 2] [1, 4, 3, 0, 0, 0, 0, 2 :: int])) (- 1) =
     Inl TypeError"
  by code_simp

theorem lag_to_recurrence_coo_witness:
  "lag_to_recurrence (Sparse COO (NDArray [4, 2] [1, 4, 3, 0, 0, 0, 0, 2 :: int])) (- 1) =
     Inl TypeError"
  using lag_to_recurrence_coo by (rule conjunct2)

section \<open>Properties of recurrence matrices\<close>

lemma is2d_mk2d_iff [simp]: "is2d r c (mk2d r' c' f) \<longleftrightarrow> r = r' \<and> c = c'"
  by (auto simp: is2d_def mk2d_def)

lemma setdiag_is2d: "is2d r c a \<Longrightarrow> is2d r c (setdiag v k a)"
  by (simp add: setdiag_def is2d_nrows is2d_ncols)

lemma get2_setdiag:
  "is2d r c a \<Longrightarrow> i < r \<Longrightarrow> j < c \<Longrightarrow>
   get2 (setdiag v k a) i j = (if int j - int i = k then v else get2 a i j)"
  by (simp add: setdiag_def is2d_nrows is2d_ncols)

lemma fold_setdiag:
  "is2d r c a \<Longrightarrow>
   is2d r c (fold (\<lambda>diag rec. setdiag v diag rec) ks a) \<and>
   (\<forall>i<r. \<forall>j<c. get2 (fold (\<lambda>diag rec. setdiag v diag rec) ks a) i j =
      (if int j - int i \<in> set ks then v else get2 a i j))"
proof (induction ks arbitrary: a)
  case Nil
  then show ?case by simp
next
  case (Cons k ks)
  have s: "is2d r c (setdiag v k a)" using Cons.prems by (rule setdiag_is2d)
  show ?case
    using Cons.IH [OF s] Cons.prems by (auto simp: get2_setdiag)
qed

lemma prune_row_is2d: "is2d r c a \<Longrightarrow> is2d r c (prune_row argsort k i a)"
  by (simp add: prune_row_def Let_def is2d_nrows is2d_ncols)

lemma get2_prune_row:
  "is2d r c a \<Longrightarrow> i < r \<Longrightarrow> j < c \<Longrightarrow>
   get2 (prune_row argsort k p a) i j = 0 \<or> get2 (prune_row argsort k p a) i j = get2 a i j"
  by (simp add: prune_row_def Let_def is2d_nrows is2d_ncols)

lemma fold_prune_row:
  "is2d r c a \<Longrightarrow>
   is2d r c (fold (\<lambda>i rec. prune_row argsort k i rec) ps a) \<and>
   (\<forall>i<r. \<forall>j<c. get2 (fold (\<lambda>i rec. prune_row argsort k i rec) ps a) i j = 0 \<or>
      get2 (fold (\<lambda>i rec. prune_row argsort k i rec) ps a) i j = get2 a i j)"
proof (induction ps arbitrary: a)
  case Nil
  then show ?case by simp
next
  case (Cons p ps)
  have s: "is2d r c (prune_row argsort k p a)" using Cons.prems by (rule prune_row_is2d)
  show ?case
  proof (intro conjI allI impI)
    show "is2d r c (fold (\<lambda>i rec. prune_row argsort k i rec) (p # ps) a)"
      using Cons.IH [OF s] by simp
  next
    fix i j assume ij: "i < r" "j < c"
    let ?b = "prune_row argsort k p a"
    have "get2 (fold (\<lambda>i rec. prune_row argsort k i rec) ps ?b) i j = 0 \<or>
          get2 (fold (\<lambda>i rec. prune_row argsort k i rec) ps ?b) i j = get2 ?b i j"
      using Cons.IH [OF s] ij by blast
    moreover have "get2 ?b i j = 0 \<or> get2 ?b i j = get2 a i j"
      using Cons.prems ij by (rule get2_prune_row)
    ultimately show "get2 (fold (\<lambda>i rec. prune_row argsort k i rec) (p # ps) a) i j = 0 \<or>
      get2 (fold (\<lambda>i rec. prune_row argsort k i rec) (p # ps) a) i j = get2 a i j"
      by auto
  qed
qed

lemma recurrence_links_entries:
  assumes "is2d t t (kneighbors_graph (min (int t - 1) (k + 2 * width))
                      (if mode = ''affinity'' then ''distance'' else mode))"
  shows "is2d t t (recurrence_links kneighbors_graph argsort t k width mode)"
    and "i < t \<Longrightarrow> j < t \<Longrightarrow>
         get2 (recurrence_links kneighbors_graph argsort t k width mode) i j = 0 \<or>
         get2 (recurrence_links kneighbors_graph argsort t k width mode) i j =
           get2 (kneighbors_graph (min (int t - 1) (k + 2 * width))
                  (if mode = ''affinity'' then ''distance'' else mode)) i j"
    and "i < t \<Longrightarrow> j < t \<Longrightarrow> \<bar>int i - int j\<bar> < width \<Longrightarrow>
         get2 (recurrence_links kneighbors_graph argsort t k width mode) i j = 0"
proof -
  define G where "G = kneighbors_graph (min (int t - 1) (k + 2 * width))
              (if mode = ''affinity'' then ''distance'' else mode)"
  define B where "B = fold (\<lambda>diag rec. setdiag 0 diag rec) [- width + 1..width - 1] G"
  define L where "L = fold (\<lambda>i rec. prune_row argsort k i rec) [0..<t] B"
  have L: "recurrence_links kneighbors_graph argsort t k width mode = L"
    unfolding recurrence_links_def Let_def L_def B_def G_def by (rule refl)
  have G: "is2d t t G" using assms unfolding G_def .
  have B: "is2d t t B"
    "\<forall>i<t. \<forall>j<t. get2 B i j = (if int j - int i \<in> set [- width + 1..width - 1] then 0 else get2 G i j)"
    using fold_setdiag [OF G, of 0 "[- width + 1..width - 1]"] unfolding B_def by blast+
  have P: "is2d t t L" "\<forall>i<t. \<forall>j<t. get2 L i j = 0 \<or> get2 L i j = get2 B i j"
    using fold_prune_row [OF B(1), of argsort k "[0..<t]"] unfolding L_def by blast+
  show "is2d t t (recurrence_links kneighbors_graph argsort t k width mode)"
    using P(1) by (simp only: L)
  show "get2 (recurrence_links kneighbors_graph argsort t k width mode) i j = 0 \<or>
         get2 (recurrence_links kneighbors_graph argsort t k width mode) i j =
           get2 (kneighbors_graph (min (int t - 1) (k + 2 * width))
                  (if mode = ''affinity'' then ''distance'' else mode)) i j"
    if ij: "i < t" "j < t"
  proof -
    have 1: "get2 L i j = 0 \<or> get2 L i j = get2 B i j" using P(2) ij by blast
    have 2: "get2 B i j = 0 \<or> get2 B i j = get2 G i j" using B(2) ij by simp
    from 1 2 have "get2 L i j = 0 \<or> get2 L i j = get2 G i j" by auto
    then show ?thesis unfolding L G_def .
  qed
  show "get2 (recurrence_links kneighbors_graph argsort t k width mode) i j = 0"
    if ij: "i < t" "j < t" and band: "\<bar>int i - int j\<bar> < width"
  proof -
    have "- width + 1 \<le> int j - int i \<and> int j - int i \<le> width - 1" using band by linarith
    then have "int j - int i \<in> set [- width + 1..width - 1]" by simp
    then have "get2 B i j = 0" using B(2) ij by simp
    moreover have "get2 L i j = 0 \<or> get2 L i j = get2 B i j" using P(2) ij by blast
    ultimately have "get2 L i j = 0" by auto
    then show ?thesis unfolding L .
  qed
qed

lemma map_array_is2d: "is2d r c a \<Longrightarrow> is2d r c (map_array f a)"
  by (simp add: is2d_def map_array_def)

lemma get2_map_array:
  "is2d r c a \<Longrightarrow> i < r \<Longrightarrow> j < c \<Longrightarrow> get2 (map_array f a) i j = f (get2 a i j)"
  using index_less [of i r j c]
  by (simp add: is2d_def map_array_def get2_def ncols_def)

lemma transpose_array_is2d: "is2d r c a \<Longrightarrow> is2d c r (transpose_array a)"
  by (simp add: transpose_array_def is2d_nrows is2d_ncols)

lemma get2_transpose_array:
  "is2d r c a \<Longrightarrow> i < c \<Longrightarrow> j < r \<Longrightarrow> get2 (transpose_array a) i j = get2 a j i"
  by (simp add: transpose_array_def is2d_nrows is2d_ncols)

lemma minimum_is2d: "is2d r c a \<Longrightarrow> is2d r c (minimum a b)"
  by (simp add: minimum_def is2d_nrows is2d_ncols)

lemma get2_minimum:
  "is2d r c a \<Longrightarrow> i < r \<Longrightarrow> j < c \<Longrightarrow>
   get2 (minimum a b) i j = min (get2 a i j) (get2 b i j)"
  by (simp add: minimum_def is2d_nrows is2d_ncols)

text \<open>The matrix after the self-loops and the symmetrisation, entry by entry.\<close>

lemma recurrence_loops_entries:
  assumes L: "is2d t t L"
  shows "is2d t t (recurrence_loops L sym' mode self)"
    and "i < t \<Longrightarrow> j < t \<Longrightarrow>
         get2 (recurrence_loops L sym' mode self) i j =
           (let s = (\<lambda>i j. if self \<and> i = j \<and> mode = ''connectivity'' then 1
                            else if self \<and> i = j \<and> mode = ''affinity'' then - 1
                            else get2 L i j)
            in if sym' then min (s i j) (s j i) else s i j)"
proof -
  define S where "S = (if self
                 then (if mode = ''connectivity'' then setdiag 1 0 L
                       else if mode = ''affinity'' then setdiag (- 1) 0 L
                       else L)
                 else L)"
  have R: "recurrence_loops L b mode self = (if b then minimum S (transpose_array S) else S)" for b
    unfolding recurrence_loops_def Let_def S_def by (rule refl)
  have S2: "is2d t t S" using L by (simp add: S_def setdiag_is2d)
  have Se: "get2 S a b = (if self \<and> a = b \<and> mode = ''connectivity'' then 1
                            else if self \<and> a = b \<and> mode = ''affinity'' then - 1
                            else get2 L a b)" if "a < t" "b < t" for a b
    using that L by (auto simp: S_def get2_setdiag)
  show "is2d t t (recurrence_loops L sym' mode self)"
    using S2 by (simp add: R minimum_is2d)
  show "get2 (recurrence_loops L sym' mode self) i j =
           (let s = (\<lambda>i j. if self \<and> i = j \<and> mode = ''connectivity'' then 1
                            else if self \<and> i = j \<and> mode = ''affinity'' then - 1
                            else get2 L i j)
            in if sym' then min (s i j) (s j i) else s i j)"
    if ij: "i < t" "j < t"
  proof (cases sym')
    case False
    then show ?thesis using Se [OF ij] by (simp add: R Let_def)
  next
    case True
    have "get2 (minimum S (transpose_array S)) i j = min (get2 S i j) (get2 S j i)"
      using S2 ij by (simp add: get2_minimum get2_transpose_array)
    then show ?thesis using True Se [OF ij] Se [OF ij(2) ij(1)] by (simp add: R Let_def)
  qed
qed

lemma toarray_recurrence_values:
  "toarray (recurrence_values rec sparse mode bandwidth) =
     (if mode = ''connectivity'' then map_array (\<lambda>v. Finite (if v \<noteq> 0 then 1 else 0)) rec
      else if mode = ''affinity'' then affinity bandwidth rec
      else map_array Finite rec)"
  by (simp add: recurrence_values_def Let_def)

lemma recurrence_matrix_Inr:
  assumes "data_length data_shape axis = Inr t" "1 \<le> width" "width \<le> int t"
    and "mode = ''connectivity'' \<or> mode = ''distance'' \<or> mode = ''affinity''"
    and "\<forall>b. bandwidth = Some b \<longrightarrow> 0 < b"
  shows "recurrence_matrix kneighbors_graph argsort data_shape k width sym' sparse mode
           bandwidth self axis =
     Inr (recurrence_values
            (recurrence_loops
               (recurrence_links kneighbors_graph argsort t (recurrence_k t width k) width mode)
               sym' mode self)
            sparse mode bandwidth)"
proof -
  have b: "\<not> (case bandwidth of None \<Rightarrow> False | Some b \<Rightarrow> b \<le> 0)"
    using assms(5) by (cases bandwidth) auto
  have m: "\<not> mode \<notin> set [''connectivity'', ''distance'', ''affinity'']"
    using assms(4) by auto
  have w: "\<not> (width < 1 \<or> width > int t)" using assms(2,3) by auto
  show ?thesis
    unfolding recurrence_matrix_def Let_def by (simp only: assms(1) sum.case b m w if_False)
qed

lemma recurrence_matrix_data_error:
  "data_length data_shape axis = Inl e \<Longrightarrow>
   recurrence_matrix kneighbors_graph argsort data_shape k width sym' sparse mode bandwidth self
     axis = Inl e"
  by (simp add: recurrence_matrix_def)

lemma data_length_positive: "data_length data_shape axis = Inr t \<Longrightarrow> 0 < t"
  by (auto simp: data_length_def Let_def split: if_splits)

lemma graph22_is2d: "\<forall>n m. is2d 2 2 (NDArray [2, 2] [0, 1, 1, 0 :: real])"
  by (simp add: is2d_def)

lemma graph22_nonneg: "\<forall>n m. \<forall>i<2. \<forall>j<2. 0 \<le> get2 (NDArray [2, 2] [0, 1, 1, 0 :: real]) i j"
  by (auto simp: get2_def ncols_def dest!: less_2_cases)

lemma data_length_12_2: "data_length [12, 2] (- 1) = Inr 2"
  by (simp add: data_length_def atleast_2d_def)

text \<open>
  Claim C7, amended. For data with \<open>t \<ge> 1\<close> observations along a valid axis,
  \<^verbatim>\<open>recurrence_matrix\<close> raises ParameterError, and returns nothing, exactly when
  \<open>width < 1\<close> or \<open>width > t\<close>, or the mode is not one of connectivity, distance and
  affinity, or a supplied bandwidth is not positive; for all other parameters the checks
  pass and a matrix is returned.
\<close>

theorem recurrence_matrix_checks:
  assumes dl: "data_length data_shape axis = Inr t"
  shows
  "(recurrence_matrix kneighbors_graph argsort data_shape k width sym' sparse mode bandwidth
      self axis = Inl ParameterError
    \<longleftrightarrow> width < 1 \<or> width > int t \<or>
        mode \<notin> {''connectivity'', ''distance'', ''affinity''} \<or>
        (\<exists>b. bandwidth = Some b \<and> b \<le> 0)) \<and>
   ((\<exists>M. recurrence_matrix kneighbors_graph argsort data_shape k width sym' sparse mode
      bandwidth self axis = Inr M)
    \<longleftrightarrow> 1 \<le> width \<and> width \<le> int t \<and>
        mode \<in> {''connectivity'', ''distance'', ''affinity''} \<and>
        (\<forall>b. bandwidth = Some b \<longrightarrow> 0 < b))"
proof (cases "1 \<le> width \<and> width \<le> int t \<and>
        mode \<in> {''connectivity'', ''distance'', ''affinity''} \<and>
        (\<forall>b. bandwidth = Some b \<longrightarrow> 0 < b)")
  case True
  then have "\<exists>M. recurrence_matrix kneighbors_graph argsort data_shape k width sym' sparse mode
      bandwidth self axis = Inr M"
    using recurrence_matrix_Inr [OF dl, of width mode bandwidth kneighbors_graph argsort k sym'
        sparse self]
    by blast
  then show ?thesis using True by auto
next
  case False
  then have bad: "width < 1 \<or> width > int t \<or>
        mode \<notin> {''connectivity'', ''distance'', ''affinity''} \<or>
        (\<exists>b. bandwidth = Some b \<and> b \<le> 0)"
    by (auto simp: not_less)
  have e: "recurrence_matrix kneighbors_graph argsort data_shape k width sym' sparse mode
      bandwidth self axis = Inl ParameterError"
  proof (cases "width < 1 \<or> width > int t")
    case True
    then show ?thesis by (simp add: recurrence_matrix_def dl)
  next
    case w: False
    show ?thesis
    proof (cases "mode \<notin> set [''connectivity'', ''distance'', ''affinity'']")
      case True
      then show ?thesis using w by (simp add: recurrence_matrix_def dl)
    next
      case m: False
      then have "\<exists>b. bandwidth = Some b \<and> b \<le> 0" using bad w by auto
      then have "(case bandwidth of None \<Rightarrow> False | Some b \<Rightarrow> b \<le> 0)" by auto
      then show ?thesis using w m unfolding recurrence_matrix_def Let_def
        by (simp only: dl sum.case if_True if_False)
    qed
  qed
  show ?thesis using e False by auto
qed

theorem recurrence_matrix_checks_witness:
  "recurrence_matrix (\<lambda>n m. NDArray [2, 2] [0, 1, 1, 0])
     (\<lambda>vs. sort_key (\<lambda>p. vs ! p) [0..<length vs]) [12, 2] (Some 2) 3 False False ''connectivity''
     None False (- 1) = Inl ParameterError \<and>
   recurrence_matrix (\<lambda>n m. NDArray [2, 2] [0, 1, 1, 0])
     (\<lambda>vs. sort_key (\<lambda>p. vs ! p) [0..<length vs]) [12, 2] (Some 2) 1 False False ''nearest''
     None False (- 1) = Inl ParameterError \<and>
   recurrence_matrix (\<lambda>n m. NDArray [2, 2] [0, 1, 1, 0])
     (\<lambda>vs. sort_key (\<lambda>p. vs ! p) [0..<length vs]) [12, 2] (Some 2) 1 False False ''affinity''
     (Some 0) False (- 1) = Inl ParameterError \<and>
   (\<exists>M. recurrence_matrix (\<lambda>n m. NDArray [2, 2] [0, 1, 1, 0])
     (\<lambda>vs. sort_key (\<lambda>p. vs ! p) [0..<length vs]) [12, 2] (Some 2) 1 False False ''affinity''
     (Some 1) False (- 1) = Inr M)"
  using
    recurrence_matrix_checks [OF data_length_12_2, of "\<lambda>n m. NDArray [2, 2] [0, 1, 1, 0]"
      "\<lambda>vs. sort_key (\<lambda>p. vs ! p) [0..<length vs]" "Some 2" 3 False False "''connectivity''" None False]
    recurrence_matrix_checks [OF data_length_12_2, of "\<lambda>n m. NDArray [2, 2] [0, 1, 1, 0]"
      "\<lambda>vs. sort_key (\<lambda>p. vs ! p) [0..<length vs]" "Some 2" 1 False False "''nearest''" None False]
    recurrence_matrix_checks [OF data_length_12_2, of "\<lambda>n m. NDArray [2, 2] [0, 1, 1, 0]"
      "\<lambda>vs. sort_key (\<lambda>p. vs ! p) [0..<length vs]" "Some 2" 1 False False "''affinity''" "Some 0" False]
    recurrence_matrix_checks [OF data_length_12_2, of "\<lambda>n m. NDArray [2, 2] [0, 1, 1, 0]"
      "\<lambda>vs. sort_key (\<lambda>p. vs ! p) [0..<length vs]" "Some 2" 1 False False "''affinity''" "Some 1" False]
  by simp

theorem recurrence_matrix_checks_counterexample:
  "recurrence_matrix (\<lambda>n m. NDArray [2, 2] [0, 1, 1, 0])
     (\<lambda>vs. sort_key (\<lambda>p. vs ! p) [0..<length vs]) [12, 0] (Some 2) 1 False False ''connectivity''
     None False (- 1) = Inl ValueError \<and>
   int (atleast_2d [12, 0] ! 1) < (1 :: int)"
  by (simp add: recurrence_matrix_def data_length_def atleast_2d_def)

lemma ceil_sqrt_from_spec:
  "m \<le> ceil_sqrt_from m n * ceil_sqrt_from m n \<and> n \<le> ceil_sqrt_from m n \<and>
   (\<forall>j. n \<le> j \<and> j < ceil_sqrt_from m n \<longrightarrow> j * j < m)"
proof (induction m n rule: ceil_sqrt_from.induct)
  case (1 m n)
  show ?case
  proof (cases "n * n < m")
    case True
    have e: "ceil_sqrt_from m n = ceil_sqrt_from m (Suc n)"
      using True by (subst ceil_sqrt_from.simps) simp
    have IH: "m \<le> ceil_sqrt_from m (Suc n) * ceil_sqrt_from m (Suc n)"
      "Suc n \<le> ceil_sqrt_from m (Suc n)"
      "\<forall>j. Suc n \<le> j \<and> j < ceil_sqrt_from m (Suc n) \<longrightarrow> j * j < m"
      using "1.IH" [OF True] by blast+
    have "j * j < m" if "n \<le> j" "j < ceil_sqrt_from m (Suc n)" for j
    proof (cases "j = n")
      case True
      then show ?thesis using \<open>n * n < m\<close> by simp
    next
      case False
      then have "Suc n \<le> j" using that(1) by simp
      then show ?thesis using IH(3) that(2) by blast
    qed
    then show ?thesis using IH(1,2) unfolding e by auto
  next
    case False
    have e: "ceil_sqrt_from m n = n"
      using False by (subst ceil_sqrt_from.simps) simp
    show ?thesis using False unfolding e by auto
  qed
qed

text \<open>The search computes the ceiling of the square root.\<close>

lemma ceil_sqrt_correct:
  assumes "0 \<le> m"
  shows "ceil_sqrt m = \<lceil>sqrt (real_of_int m)\<rceil>"
proof -
  define r where "r = ceil_sqrt_from (nat m) 0"
  have up: "nat m \<le> r * r" and low: "\<forall>j. j < r \<longrightarrow> j * j < nat m"
    using ceil_sqrt_from_spec [of "nat m" 0] unfolding r_def by auto
  have m: "real_of_int m = real (nat m)" using assms by simp
  have 1: "sqrt (real_of_int m) \<le> real r"
  proof -
    have "real (nat m) \<le> real (r * r)" using up by (simp only: of_nat_le_iff)
    then have "real (nat m) \<le> (real r)\<^sup>2" by (simp add: power2_eq_square)
    then show ?thesis unfolding m by (intro real_le_lsqrt) simp_all
  qed
  have 2: "real r - 1 < sqrt (real_of_int m)"
  proof (cases r)
    case 0
    have "0 \<le> sqrt (real_of_int m)" using assms by simp
    moreover have "real r - 1 = - 1" using 0 by simp
    ultimately show ?thesis by linarith
  next
    case (Suc j)
    then have "j * j < nat m" using low by simp
    then have "real (j * j) < real (nat m)" by (simp only: of_nat_less_iff)
    then have "(real j)\<^sup>2 < real (nat m)" by (simp add: power2_eq_square)
    then have "real j < sqrt (real (nat m))" by (rule real_less_rsqrt)
    then have "real j < sqrt (real_of_int m)" by (simp only: m)
    then show ?thesis using Suc by simp
  qed
  have "\<lceil>sqrt (real_of_int m)\<rceil> = int r"
    by (rule ceiling_unique) (use 1 2 in simp_all)
  then show ?thesis by (simp add: ceil_sqrt_def r_def)
qed

text \<open>
  Claim C4. For every valid input, \<^verbatim>\<open>recurrence_matrix\<close> with \<open>sym=True\<close> and
  \<open>mode='connectivity'\<close> returns a matrix equal to its own transpose.
\<close>

theorem recurrence_matrix_symmetric:
  assumes dl: "data_length data_shape axis = Inr t"
    and graph: "\<forall>n m. is2d t t (kneighbors_graph n m)"
    and width: "1 \<le> width" "width \<le> int t"
    and bw: "\<forall>b. bandwidth = Some b \<longrightarrow> 0 < b"
  shows "\<exists>M. recurrence_matrix kneighbors_graph argsort data_shape k width True sparse ''connectivity''
              bandwidth self axis = Inr M \<and>
             is2d t t (toarray M) \<and> transpose_array (toarray M) = toarray M"
proof -
  define L where
    "L = recurrence_links kneighbors_graph argsort t (recurrence_k t width k) width ''connectivity''"
  define R where "R = recurrence_loops L True ''connectivity'' self"
  define M where "M = recurrence_values R sparse ''connectivity'' bandwidth"
  have res: "recurrence_matrix kneighbors_graph argsort data_shape k width True sparse ''connectivity''
      bandwidth self axis = Inr M"
    unfolding M_def R_def L_def by (rule recurrence_matrix_Inr [OF dl width _ bw]) simp
  have L2: "is2d t t L"
    unfolding L_def by (rule recurrence_links_entries(1)) (simp add: graph)
  have R2: "is2d t t R" unfolding R_def by (rule recurrence_loops_entries(1) [OF L2])
  have Rsym: "get2 R i j = get2 R j i" if "i < t" "j < t" for i j
    unfolding R_def
    by (simp only: recurrence_loops_entries(2) [OF L2 that] 
        recurrence_loops_entries(2) [OF L2 that(2) that(1)] Let_def if_True min.commute)
  have out: "toarray M = map_array (\<lambda>v. Finite (if v \<noteq> 0 then 1 else 0)) R"
    by (simp add: M_def toarray_recurrence_values)
  have M2: "is2d t t (toarray M)" using R2 by (simp add: out map_array_is2d)
  have "transpose_array (toarray M) = toarray M"
  proof (rule is2d_ext [of t t])
    show "is2d t t (transpose_array (toarray M))" using M2 by (rule transpose_array_is2d)
    show "is2d t t (toarray M)" by (rule M2)
    fix i j assume ij: "i < t" "j < t"
    have "get2 (transpose_array (toarray M)) i j = get2 (toarray M) j i"
      using M2 ij by (rule get2_transpose_array)
    also have "\<dots> = get2 (toarray M) i j"
      using Rsym [OF ij] by (simp add: out get2_map_array [OF R2] ij)
    finally show "get2 (transpose_array (toarray M)) i j = get2 (toarray M) i j" .
  qed
  with res M2 show ?thesis by blast
qed

theorem recurrence_matrix_symmetric_witness:
  "\<exists>M. recurrence_matrix (\<lambda>n m. NDArray [2, 2] [0, 1, 1, 0])
     (\<lambda>vs. sort_key (\<lambda>p. vs ! p) [0..<length vs]) [12, 2] (Some 2) 1 True False ''connectivity''
     None True (- 1) = Inr M \<and>
     is2d 2 2 (toarray M) \<and> transpose_array (toarray M) = toarray M"
  using recurrence_matrix_symmetric [OF data_length_12_2 graph22_is2d, of 1 None
      "\<lambda>vs. sort_key (\<lambda>p. vs ! p) [0..<length vs]" "Some 2" False True]
  by simp

text \<open>
  Claim C2, amended. For \<open>1 \<le> width \<le> t\<close> and every setting of the other parameters the
  matrix returned has no nonzero entry at \<open>(i, j)\<close> with \<open>|i - j| < width\<close>, except on the
  main diagonal when \<open>self=True\<close> and the mode is connectivity or affinity, where the
  self-loops are put.
\<close>

theorem recurrence_matrix_band:
  assumes dl: "data_length data_shape axis = Inr t"
    and graph: "\<forall>n m. is2d t t (kneighbors_graph n m)"
    and width: "1 \<le> width" "width \<le> int t"
    and mode: "mode = ''connectivity'' \<or> mode = ''distance'' \<or> mode = ''affinity''"
    and bw: "\<forall>b. bandwidth = Some b \<longrightarrow> 0 < b"
  shows "\<exists>M. recurrence_matrix kneighbors_graph argsort data_shape k width sym' sparse mode
              bandwidth self axis = Inr M \<and>
             (\<forall>i<t. \<forall>j<t. \<bar>int i - int j\<bar> < width \<and>
                 \<not> (self \<and> i = j \<and> (mode = ''connectivity'' \<or> mode = ''affinity'')) \<longrightarrow>
                 get2 (toarray M) i j = Finite 0)"
proof -
  define L where
    "L = recurrence_links kneighbors_graph argsort t (recurrence_k t width k) width mode"
  define R where "R = recurrence_loops L sym' mode self"
  define M where "M = recurrence_values R sparse mode bandwidth"
  have res: "recurrence_matrix kneighbors_graph argsort data_shape k width sym' sparse mode
      bandwidth self axis = Inr M"
    unfolding M_def R_def L_def by (rule recurrence_matrix_Inr [OF dl width mode bw])
  have G: "is2d t t (kneighbors_graph (min (int t - 1) (recurrence_k t width k + 2 * width))
                      (if mode = ''affinity'' then ''distance'' else mode))"
    using graph by blast
  have L2: "is2d t t L" unfolding L_def by (rule recurrence_links_entries(1)) (rule G)
  have R2: "is2d t t R" unfolding R_def by (rule recurrence_loops_entries(1) [OF L2])
  have Lband: "get2 L i j = 0" if "i < t" "j < t" "\<bar>int i - int j\<bar> < width" for i j
    unfolding L_def by (rule recurrence_links_entries(3)) (rule G that)+
  have zero: "get2 (toarray M) i j = Finite 0"
    if ij: "i < t" "j < t" and band: "\<bar>int i - int j\<bar> < width"
      and nl: "\<not> (self \<and> i = j \<and> (mode = ''connectivity'' \<or> mode = ''affinity''))" for i j
  proof -
    have band': "\<bar>int j - int i\<bar> < width" using band by linarith
    have "get2 R i j = 0"
      unfolding R_def
      using nl Lband [OF ij band] Lband [OF ij(2) ij(1) band']
      by (simp only: recurrence_loops_entries(2) [OF L2 ij] Let_def) auto
    then show ?thesis
      using ij by (simp add: M_def toarray_recurrence_values affinity_def Let_def
          get2_map_array [OF R2])
  qed
  show ?thesis using res zero by blast
qed

theorem recurrence_matrix_band_witness:
  "\<exists>M. recurrence_matrix (\<lambda>n m. NDArray [2, 2] [0, 1, 1, 0])
     (\<lambda>vs. sort_key (\<lambda>p. vs ! p) [0..<length vs]) [12, 2] (Some 2) 1 False False ''distance''
     None True (- 1) = Inr M \<and>
     get2 (toarray M) 0 0 = Finite 0 \<and> get2 (toarray M) 1 1 = Finite 0"
proof -
  from recurrence_matrix_band [OF data_length_12_2 graph22_is2d, of 1 "''distance''" None
      "\<lambda>vs. sort_key (\<lambda>p. vs ! p) [0..<length vs]" "Some 2" False False True]
  obtain M where M: "recurrence_matrix (\<lambda>n m. NDArray [2, 2] [0, 1, 1, 0])
     (\<lambda>vs. sort_key (\<lambda>p. vs ! p) [0..<length vs]) [12, 2] (Some 2) 1 False False ''distance''
     None True (- 1) = Inr M"
    and z: "\<forall>i<2. \<forall>j<2. \<bar>int i - int j\<bar> < 1 \<and>
        \<not> (True \<and> i = j \<and> (''distance'' = ''connectivity'' \<or> ''distance'' = ''affinity'')) \<longrightarrow>
        get2 (toarray M) i j = Finite 0"
    by auto
  have "get2 (toarray M) 0 0 = Finite 0" using z by force
  moreover have "get2 (toarray M) 1 1 = Finite 0" using z by force
  ultimately show ?thesis using M by blast
qed

theorem recurrence_matrix_band_counterexample:
  "recurrence_matrix (\<lambda>n m. NDArray [2, 2] [0, 1, 1, 0])
     (\<lambda>vs. sort_key (\<lambda>p. vs ! p) [0..<length vs]) [12, 2] (Some 2) 1 False False ''connectivity''
     None True (- 1) =
     Inr (Dense (NDArray [2, 2] [Finite 1, Finite 1, Finite 1, Finite 1])) \<and>
   get2 (NDArray [2, 2] [Finite 1, Finite 1, Finite 1, Finite 1]) 0 0 \<noteq> Finite 0 \<and>
   \<bar>int 0 - int 0\<bar> < (1 :: int)"
proof -
  have k: "recurrence_k 2 1 (Some 2) = 2" by code_simp
  have l: "recurrence_links (\<lambda>n m. NDArray [2, 2] [0, 1, 1, 0])
     (\<lambda>vs. sort_key (\<lambda>p. vs ! p) [0..<length vs]) 2 2 1 ''connectivity''
     = NDArray [2, 2] [0, 1, 1, 0]" by code_simp
  have s: "recurrence_loops (NDArray [2, 2] [0, 1, 1, 0]) False ''connectivity'' True
     = NDArray [2, 2] [1, 1, 1, 1]" by code_simp
  have "recurrence_matrix (\<lambda>n m. NDArray [2, 2] [0, 1, 1, 0])
     (\<lambda>vs. sort_key (\<lambda>p. vs ! p) [0..<length vs]) [12, 2] (Some 2) 1 False False ''connectivity''
     None True (- 1) =
     Inr (Dense (NDArray [2, 2] [Finite 1, Finite 1, Finite 1, Finite 1]))"
    by (simp add: recurrence_matrix_def data_length_12_2 k l s recurrence_values_def
        map_array_def)
  then show ?thesis by (simp add: get2_def)
qed

lemma nanmedian_pos:
  assumes "xs \<noteq> []" "\<forall>x \<in> set xs. 0 < x"
  shows "\<exists>b. nanmedian xs = Finite b \<and> 0 < b"
proof -
  let ?s = "sort xs"
  have len: "length ?s = length xs" by simp
  have n: "0 < length ?s" using assms(1) by simp
  have pos: "0 < ?s ! k" if "k < length ?s" for k
  proof -
    have "?s ! k \<in> set ?s" using that by (rule nth_mem)
    then show ?thesis using assms(2) by simp
  qed
  have 1: "0 < ?s ! (length ?s div 2)" using n by (intro pos) simp
  have 2: "0 < ?s ! (length ?s div 2 - 1)" using n by (intro pos) (simp add: less_imp_diff_less)
  show ?thesis
  proof (cases "odd (length ?s)")
    case True
    then have "nanmedian xs = Finite (?s ! (length ?s div 2))"
      using assms(1) by (simp add: nanmedian_def Let_def)
    then show ?thesis using 1 by blast
  next
    case False
    then have "nanmedian xs = Finite ((?s ! (length ?s div 2 - 1) + ?s ! (length ?s div 2)) / 2)"
      using assms(1) by (simp add: nanmedian_def Let_def)
    moreover have "0 < (?s ! (length ?s div 2 - 1) + ?s ! (length ?s div 2)) / 2"
      using 1 2 by simp
    ultimately show ?thesis by blast
  qed
qed

lemma affinity_value_range:
  assumes "0 < b" "0 \<le> d"
  shows "\<exists>x. affinity_value (Finite b) d = Finite x \<and> 0 < x \<and> x \<le> 1"
proof -
  have "d / (- 1 * b) \<le> 0" using assms by (simp add: divide_nonneg_pos)
  then have "exp (d / (- 1 * b)) \<le> 1" by simp
  moreover have "0 < exp (d / (- 1 * b))" by simp
  ultimately show ?thesis using assms(1) by simp
qed

lemma row_max_ge:
  assumes "j < c"
  shows "get2 a i j \<le> Max (set (map (\<lambda>j. get2 a i j) [0..<c]))"
  using assms by (intro Max_ge) auto

lemma row_max_data_nonempty:
  assumes a: "is2d r c a" and ij: "i < r" "j < c" and pos: "0 < get2 a i j"
  shows "row_max_data a \<noteq> []"
proof -
  let ?m = "\<lambda>i. Max (set (map (\<lambda>j. get2 a i j) [0..<c]))"
  have "0 < ?m i" using pos row_max_ge [OF ij(2), of a i] by linarith
  then have "?m i \<in> set (filter (\<lambda>x. x \<noteq> 0) (map ?m [0..<r]))" using ij(1) by auto
  moreover have "xs \<noteq> []" if "x \<in> set xs" for x :: real and xs
    using that by auto
  ultimately have "filter (\<lambda>x. x \<noteq> 0) (map ?m [0..<r]) \<noteq> []" by blast
  moreover have "row_max_data a = filter (\<lambda>x. x \<noteq> 0) (map ?m [0..<r])"
    using a by (simp add: row_max_data_def is2d_nrows is2d_ncols)
  ultimately show ?thesis by simp
qed

lemma row_max_data_pos:
  assumes a: "is2d r c a" and c: "2 \<le> c"
    and off: "\<forall>i<r. \<forall>j<c. i \<noteq> j \<longrightarrow> 0 \<le> get2 a i j"
  shows "\<forall>x \<in> set (row_max_data a). 0 < x"
proof
  fix x assume "x \<in> set (row_max_data a)"
  then obtain i where i: "i < r" and x: "x = Max (set (map (\<lambda>j. get2 a i j) [0..<c]))"
    and nz: "x \<noteq> 0"
    using a by (auto simp: row_max_data_def is2d_nrows is2d_ncols)
  obtain j where j: "j < c" "i \<noteq> j"
  proof (cases "i = 0")
    case True
    then show ?thesis using that [of 1] c by simp
  next
    case False
    then show ?thesis using that [of 0] c by simp
  qed
  have "0 \<le> get2 a i j" using off i j by blast
  also have "\<dots> \<le> x" unfolding x by (rule row_max_ge [OF j(1)])
  finally show "0 < x" using nz by simp
qed

lemma affinity_entries:
  assumes R2: "is2d t t R" and ij: "i < t" "j < t"
    and off: "\<forall>i<t. \<forall>j<t. i \<noteq> j \<longrightarrow> 0 \<le> get2 R i j"
    and diag: "\<forall>i<t. get2 R i i = (if self then - 1 else 0)"
    and bw: "\<forall>b. bandwidth = Some b \<longrightarrow> 0 < b"
    and ok: "bandwidth \<noteq> None \<or> \<not> self \<or> (\<exists>i<t. \<exists>j<t. 0 < get2 R i j)"
  shows "\<exists>x. get2 (affinity bandwidth R) i j = Finite x \<and> (x = 0 \<or> (0 < x \<and> x \<le> 1))"
proof -
  define w where
    "w = (case bandwidth of None \<Rightarrow> nanmedian (row_max_data R) | Some b \<Rightarrow> Finite b)"
  define v where "v = get2 R i j"
  have entry: "get2 (affinity bandwidth R) i j =
      (if v = 0 then Finite 0 else affinity_value w (if v < 0 then 0 else v))"
    unfolding affinity_def Let_def w_def [symmetric] v_def
    by (rule get2_map_array [OF R2 ij])
  show ?thesis
  proof (cases "v = 0")
    case True
    then show ?thesis by (simp add: entry)
  next
    case False
    have "\<exists>b. w = Finite b \<and> 0 < b"
    proof (cases bandwidth)
      case (Some b)
      then show ?thesis using bw by (simp add: w_def)
    next
      case None
      have "\<exists>p<t. \<exists>q<t. 0 < get2 R p q"
      proof (rule ccontr)
        assume no: "\<not> (\<exists>p<t. \<exists>q<t. 0 < get2 R p q)"
        then have ns: "\<not> self" using ok None by blast
        have "get2 R i j \<le> 0" using no ij by (meson not_less)
        moreover have "0 \<le> get2 R i j"
        proof (cases "i = j")
          case True
          then show ?thesis using diag ij ns by simp
        next
          case False
          then show ?thesis using off ij by blast
        qed
        ultimately show False using \<open>v \<noteq> 0\<close> by (simp add: v_def)
      qed
      then obtain p q where pq: "p < t" "q < t" "0 < get2 R p q" by blast
      have "p \<noteq> q"
      proof
        assume "p = q"
        then have "get2 R p q \<le> 0" using diag pq(1) by simp
        then show False using pq(3) by simp
      qed
      then have t2: "2 \<le> t" using pq(1,2) by linarith
      have ne: "row_max_data R \<noteq> []" by (rule row_max_data_nonempty [OF R2 pq])
      have pos: "\<forall>x \<in> set (row_max_data R). 0 < x" by (rule row_max_data_pos [OF R2 t2 off])
      show ?thesis using nanmedian_pos [OF ne pos] None by (simp add: w_def)
    qed
    then obtain b where b: "w = Finite b" "0 < b" by blast
    have d: "0 \<le> (if v < 0 then 0 else v)" by simp
    from affinity_value_range [OF b(2) d] obtain x where
      "affinity_value (Finite b) (if v < 0 then 0 else v) = Finite x" "0 < x" "x \<le> 1" by blast
    then show ?thesis using False b(1) by (simp add: entry)
  qed
qed

lemma recurrence_loops_sign:
  assumes L2: "is2d t t L" and ij: "i < t" "j < t"
    and nn: "\<forall>i<t. \<forall>j<t. 0 \<le> get2 L i j"
    and dz: "\<forall>i<t. get2 L i i = 0"
  shows "mode = ''distance'' \<Longrightarrow> 0 \<le> get2 (recurrence_loops L sym' mode self) i j"
    and "mode = ''affinity'' \<Longrightarrow> i \<noteq> j \<Longrightarrow> 0 \<le> get2 (recurrence_loops L sym' mode self) i j"
    and "mode = ''affinity'' \<Longrightarrow> i = j \<Longrightarrow>
         get2 (recurrence_loops L sym' mode self) i j = (if self then - 1 else 0)"
proof -
  have 1: "0 \<le> get2 L i j" "0 \<le> get2 L j i" using nn ij by blast+
  have 2: "get2 L j j = 0" using dz ij by blast
  note e = recurrence_loops_entries(2) [OF L2 ij, of sym' mode self]
  show "0 \<le> get2 (recurrence_loops L sym' mode self) i j" if "mode = ''distance''"
    unfolding e using that 1 by (simp add: Let_def)
  show "0 \<le> get2 (recurrence_loops L sym' mode self) i j" if "mode = ''affinity''" "i \<noteq> j"
    unfolding e using that 1 by (simp add: Let_def)
  show "get2 (recurrence_loops L sym' mode self) i j = (if self then - 1 else 0)"
    if "mode = ''affinity''" "i = j"
    unfolding e using that 2 by (simp add: Let_def)
qed

text \<open>
  The ranges of the entries. For every valid input whose neighbour graph has no negative
  entry: in connectivity mode every entry is \<open>0\<close> or \<open>1\<close>; in distance mode every entry is
  \<open>\<ge> 0\<close>; in affinity mode every entry is \<open>0\<close> or lies in \<open>(0, 1]\<close>, provided that a
  bandwidth is supplied, or \<open>self=False\<close>, or a link remains after the pruning and the
  symmetrisation.
\<close>

lemma recurrence_matrix_values:
  assumes dl: "data_length data_shape axis = Inr t"
    and graph: "\<forall>n m. is2d t t (kneighbors_graph n m)"
    and nonneg: "\<forall>n m. \<forall>i<t. \<forall>j<t. 0 \<le> get2 (kneighbors_graph n m) i j"
    and width: "1 \<le> width" "width \<le> int t"
    and mode: "mode = ''connectivity'' \<or> mode = ''distance'' \<or> mode = ''affinity''"
    and bw: "\<forall>b. bandwidth = Some b \<longrightarrow> 0 < b"
  shows "\<exists>M. recurrence_matrix kneighbors_graph argsort data_shape k width sym' sparse mode
              bandwidth self axis = Inr M \<and>
     (mode = ''connectivity'' \<longrightarrow>
        (\<forall>i<t. \<forall>j<t. get2 (toarray M) i j = Finite 0 \<or> get2 (toarray M) i j = Finite 1)) \<and>
     (mode = ''distance'' \<longrightarrow>
        (\<forall>i<t. \<forall>j<t. \<exists>x. get2 (toarray M) i j = Finite x \<and> 0 \<le> x)) \<and>
     (mode = ''affinity'' \<and>
      (bandwidth \<noteq> None \<or> \<not> self \<or>
       (\<exists>i<t. \<exists>j<t. 0 < get2 (recurrence_loops
           (recurrence_links kneighbors_graph argsort t (recurrence_k t width k) width mode)
           sym' mode self) i j)) \<longrightarrow>
        (\<forall>i<t. \<forall>j<t. \<exists>x. get2 (toarray M) i j = Finite x \<and> (x = 0 \<or> (0 < x \<and> x \<le> 1))))"
proof -
  define G where "G = kneighbors_graph (min (int t - 1) (recurrence_k t width k + 2 * width))
                      (if mode = ''affinity'' then ''distance'' else mode)"
  define L where
    "L = recurrence_links kneighbors_graph argsort t (recurrence_k t width k) width mode"
  define R where "R = recurrence_loops L sym' mode self"
  define M where "M = recurrence_values R sparse mode bandwidth"
  have res: "recurrence_matrix kneighbors_graph argsort data_shape k width sym' sparse mode
      bandwidth self axis = Inr M"
    unfolding M_def R_def L_def by (rule recurrence_matrix_Inr [OF dl width mode bw])
  have G: "is2d t t G" unfolding G_def using graph by blast
  have L2: "is2d t t L" unfolding L_def by (rule recurrence_links_entries(1)) (rule G [unfolded G_def])
  have R2: "is2d t t R" unfolding R_def by (rule recurrence_loops_entries(1) [OF L2])
  have Lnn: "\<forall>i<t. \<forall>j<t. 0 \<le> get2 L i j"
  proof (intro allI impI)
    fix i j assume ij: "i < t" "j < t"
    have "get2 L i j = 0 \<or> get2 L i j = get2 G i j"
      unfolding L_def G_def by (rule recurrence_links_entries(2)) (rule G [unfolded G_def] ij)+
    moreover have "0 \<le> get2 G i j" unfolding G_def using nonneg ij by blast
    ultimately show "0 \<le> get2 L i j" by auto
  qed
  have Ldz: "\<forall>i<t. get2 L i i = 0"
  proof (intro allI impI)
    fix i assume i: "i < t"
    have "\<bar>int i - int i\<bar> < width" using width(1) by simp
    then show "get2 L i i = 0"
      unfolding L_def by (intro recurrence_links_entries(3)) (rule G [unfolded G_def] i)+
  qed
  have conn: "get2 (toarray M) i j = Finite 0 \<or> get2 (toarray M) i j = Finite 1"
    if "mode = ''connectivity''" "i < t" "j < t" for i j
    using that by (simp add: M_def toarray_recurrence_values get2_map_array [OF R2])
  have dist: "\<exists>x. get2 (toarray M) i j = Finite x \<and> 0 \<le> x"
    if m: "mode = ''distance''" and ij: "i < t" "j < t" for i j
  proof -
    have "0 \<le> get2 R i j"
      unfolding R_def by (rule recurrence_loops_sign(1) [OF L2 ij Lnn Ldz m])
    then show ?thesis using m ij
      by (simp add: M_def toarray_recurrence_values get2_map_array [OF R2])
  qed
  have aff: "\<exists>x. get2 (toarray M) i j = Finite x \<and> (x = 0 \<or> (0 < x \<and> x \<le> 1))"
    if m: "mode = ''affinity''"
      and ok: "bandwidth \<noteq> None \<or> \<not> self \<or> (\<exists>i<t. \<exists>j<t. 0 < get2 R i j)"
      and ij: "i < t" "j < t" for i j
  proof -
    have off: "\<forall>i<t. \<forall>j<t. i \<noteq> j \<longrightarrow> 0 \<le> get2 R i j"
      unfolding R_def using recurrence_loops_sign(2) [OF L2 _ _ Lnn Ldz m] by blast
    have diag: "\<forall>i<t. get2 R i i = (if self then - 1 else 0)"
      unfolding R_def using recurrence_loops_sign(3) [OF L2 _ _ Lnn Ldz m] by blast
    have "toarray M = affinity bandwidth R"
      using m by (simp add: M_def toarray_recurrence_values)
    then show ?thesis using affinity_entries [OF R2 ij off diag bw ok] by simp
  qed
  show ?thesis
    using res conn dist aff unfolding R_def L_def by blast
qed

lemma recurrence_matrix_values_example:
  "(\<exists>M. recurrence_matrix (\<lambda>n m. NDArray [2, 2] [0, 1, 1, 0])
     (\<lambda>vs. sort_key (\<lambda>p. vs ! p) [0..<length vs]) [12, 2] (Some 2) 1 False False ''connectivity''
     None True (- 1) = Inr M \<and>
     (get2 (toarray M) 0 1 = Finite 0 \<or> get2 (toarray M) 0 1 = Finite 1)) \<and>
   (\<exists>M. recurrence_matrix (\<lambda>n m. NDArray [2, 2] [0, 1, 1, 0])
     (\<lambda>vs. sort_key (\<lambda>p. vs ! p) [0..<length vs]) [12, 2] (Some 2) 1 False False ''distance''
     None True (- 1) = Inr M \<and>
     (\<exists>x. get2 (toarray M) 0 1 = Finite x \<and> 0 \<le> x)) \<and>
   (\<exists>M. recurrence_matrix (\<lambda>n m. NDArray [2, 2] [0, 1, 1, 0])
     (\<lambda>vs. sort_key (\<lambda>p. vs ! p) [0..<length vs]) [12, 2] (Some 2) 1 False False ''affinity''
     (Some 1) True (- 1) = Inr M \<and>
     (\<exists>x. get2 (toarray M) 0 1 = Finite x \<and> (x = 0 \<or> (0 < x \<and> x \<le> 1))))"
proof (intro conjI)
  from recurrence_matrix_values [OF data_length_12_2 graph22_is2d graph22_nonneg, of 1
      "''connectivity''" None "\<lambda>vs. sort_key (\<lambda>p. vs ! p) [0..<length vs]" "Some 2" False False True]
  show "\<exists>M. recurrence_matrix (\<lambda>n m. NDArray [2, 2] [0, 1, 1, 0])
     (\<lambda>vs. sort_key (\<lambda>p. vs ! p) [0..<length vs]) [12, 2] (Some 2) 1 False False ''connectivity''
     None True (- 1) = Inr M \<and>
     (get2 (toarray M) 0 1 = Finite 0 \<or> get2 (toarray M) 0 1 = Finite 1)"
    by force
next
  from recurrence_matrix_values [OF data_length_12_2 graph22_is2d graph22_nonneg, of 1
      "''distance''" None "\<lambda>vs. sort_key (\<lambda>p. vs ! p) [0..<length vs]" "Some 2" False False True]
  show "\<exists>M. recurrence_matrix (\<lambda>n m. NDArray [2, 2] [0, 1, 1, 0])
     (\<lambda>vs. sort_key (\<lambda>p. vs ! p) [0..<length vs]) [12, 2] (Some 2) 1 False False ''distance''
     None True (- 1) = Inr M \<and>
     (\<exists>x. get2 (toarray M) 0 1 = Finite x \<and> 0 \<le> x)"
    by force
next
  from recurrence_matrix_values [OF data_length_12_2 graph22_is2d graph22_nonneg, of 1
      "''affinity''" "Some 1" "\<lambda>vs. sort_key (\<lambda>p. vs ! p) [0..<length vs]" "Some 2" False False True]
  show "\<exists>M. recurrence_matrix (\<lambda>n m. NDArray [2, 2] [0, 1, 1, 0])
     (\<lambda>vs. sort_key (\<lambda>p. vs ! p) [0..<length vs]) [12, 2] (Some 2) 1 False False ''affinity''
     (Some 1) True (- 1) = Inr M \<and>
     (\<exists>x. get2 (toarray M) 0 1 = Finite x \<and> (x = 0 \<or> (0 < x \<and> x \<le> 1)))"
    by force
qed

text \<open>
  Claim C3. The entries should lie in the range of the mode, in affinity mode in \<open>(0, 1]\<close>
  when they are not zero; lemma \<open>recurrence_matrix_values\<close> proves the ranges wherever a
  bandwidth is supplied or can be estimated. For two frames with \<open>width = 2\<close>,
  \<open>mode='affinity'\<close>, \<open>self=True\<close> and no bandwidth no link remains, the bandwidth is the
  median of no data, and the self-loops, which the docstring of \<open>self\<close> sets to \<open>1\<close>, are
  NaN. With a bandwidth supplied the same call returns the self-loops \<open>1\<close>.
\<close>

theorem recurrence_matrix_affinity_nan:
  "recurrence_matrix (\<lambda>n m. NDArray [2, 2] [0, 1, 1, 0])
     (\<lambda>vs. sort_key (\<lambda>p. vs ! p) [0..<length vs]) [12, 2] None 2 False False ''affinity''
     None True (- 1) =
     Inr (Dense (NDArray [2, 2] [NaN, Finite 0, Finite 0, NaN])) \<and>
   recurrence_matrix (\<lambda>n m. NDArray [2, 2] [0, 1, 1, 0])
     (\<lambda>vs. sort_key (\<lambda>p. vs ! p) [0..<length vs]) [12, 2] None 2 False False ''affinity''
     (Some 1) True (- 1) =
     Inr (Dense (NDArray [2, 2] [Finite 1, Finite 0, Finite 0, Finite 1]))"
proof -
  have k: "recurrence_k 2 2 None = 2" by code_simp
  have l: "recurrence_links (\<lambda>n m. NDArray [2, 2] [0, 1, 1, 0])
     (\<lambda>vs. sort_key (\<lambda>p. vs ! p) [0..<length vs]) 2 2 2 ''affinity''
     = NDArray [2, 2] [0, 0, 0, 0]" by code_simp
  have s: "recurrence_loops (NDArray [2, 2] [0, 0, 0, 0]) False ''affinity'' True
     = NDArray [2, 2] [- 1, 0, 0, - 1]" by code_simp
  have d: "row_max_data (NDArray [2, 2] [- 1, 0, 0, - 1]) = []" by code_simp
  have 1: "recurrence_matrix (\<lambda>n m. NDArray [2, 2] [0, 1, 1, 0])
     (\<lambda>vs. sort_key (\<lambda>p. vs ! p) [0..<length vs]) [12, 2] None 2 False False ''affinity''
     None True (- 1) =
     Inr (Dense (NDArray [2, 2] [NaN, Finite 0, Finite 0, NaN]))"
    by (simp add: recurrence_matrix_def data_length_12_2 k l s d recurrence_values_def
        affinity_def nanmedian_def map_array_def)
  have 2: "recurrence_matrix (\<lambda>n m. NDArray [2, 2] [0, 1, 1, 0])
     (\<lambda>vs. sort_key (\<lambda>p. vs ! p) [0..<length vs]) [12, 2] None 2 False False ''affinity''
     (Some 1) True (- 1) =
     Inr (Dense (NDArray [2, 2] [Finite 1, Finite 0, Finite 0, Finite 1]))"
    by (simp add: recurrence_matrix_def data_length_12_2 k l s recurrence_values_def
        affinity_def map_array_def)
  show ?thesis using 1 2 by (rule conjI)
qed

theorem recurrence_matrix_affinity_nan_witness:
  "recurrence_matrix (\<lambda>n m. NDArray [2, 2] [0, 1, 1, 0])
     (\<lambda>vs. sort_key (\<lambda>p. vs ! p) [0..<length vs]) [12, 2] None 2 False False ''affinity''
     None True (- 1) =
     Inr (Dense (NDArray [2, 2] [NaN, Finite 0, Finite 0, NaN]))"
  using recurrence_matrix_affinity_nan by (rule conjunct1)

end
